theory Spec2Isabelle
  imports Complex_Main
begin

section \<open>Fields, buffers and the store\<close>

text \<open>
  The kernels of \<^verbatim>\<open>Simulation/Calculations.py\<close> work on two-dimensional numpy arrays
  that are passed by reference and partly written in place. An array value is its shape
  together with its cells; cell values are modelled as exact reals (the floating-point
  rounding of the source is idealised away). A buffer is an address in a store, so that
  writing through a parameter and rebinding a local name to a new array are different
  things in the model, as they are in Python.

  The record keeps a value for every index pair; the cells outside the shape are not part
  of the array. The kernels stay inside the shape when every buffer is square with the
  grid dimension, at least \<open>2 \<times> 2\<close>, which is what the theorems about cell values
  assume. Under \<^verbatim>\<open>@njit\<close> the source does not check an index either.
\<close>

type_synonym ref = nat

record ndarray =
  nrows :: nat
  ncols :: nat
  cells :: "nat \<Rightarrow> nat \<Rightarrow> real"

record store =
  heap :: "ref \<Rightarrow> ndarray"
  brk :: ref

datatype error = IndexError | ZeroDivisionError

definition rows :: "store \<Rightarrow> ref \<Rightarrow> nat" where
  "rows s r = nrows (heap s r)"

definition cols :: "store \<Rightarrow> ref \<Rightarrow> nat" where
  "cols s r = ncols (heap s r)"

definition rd :: "store \<Rightarrow> ref \<Rightarrow> nat \<Rightarrow> nat \<Rightarrow> real" where
  "rd s r i j = cells (heap s r) i j"

definition wr :: "ref \<Rightarrow> nat \<Rightarrow> nat \<Rightarrow> real \<Rightarrow> store \<Rightarrow> store" where
  "wr r i j v s =
     s\<lparr>heap := (heap s)(r := (heap s r)\<lparr>cells := (cells (heap s r))(i := (cells (heap s r) i)(j := v))\<rparr>)\<rparr>"

text \<open>A new array object: it gets the next unused address.\<close>

definition alloc :: "ndarray \<Rightarrow> store \<Rightarrow> ref \<times> store" where
  "alloc A s = (brk s, s\<lparr>heap := (heap s)(brk s := A), brk := Suc (brk s)\<rparr>)"

text \<open>An array written as the list of its rows, for concrete inputs.\<close>

definition array_of :: "real list list \<Rightarrow> ndarray" where
  "array_of xss =
     \<lparr>nrows = length xss,
      ncols = (case xss of [] \<Rightarrow> 0 | r # _ \<Rightarrow> length r),
      cells = (\<lambda>i j. if i < length xss \<and> j < length (xss ! i) then xss ! i ! j else 0)\<rparr>"

definition store_of :: "real list list list \<Rightarrow> store" where
  "store_of As =
     \<lparr>heap = (\<lambda>r. if r < length As then array_of (As ! r) else array_of []),
      brk = length As\<rparr>"

definition corner :: "nat \<Rightarrow> nat \<Rightarrow> nat \<Rightarrow> bool" where
  "corner N i j \<longleftrightarrow> (i = 0 \<or> i = N - 1) \<and> (j = 0 \<or> j = N - 1)"

definition interior :: "nat \<Rightarrow> nat \<Rightarrow> nat \<Rightarrow> bool" where
  "interior N i j \<longleftrightarrow> 1 \<le> i \<and> i + 1 < N \<and> 1 \<le> j \<and> j + 1 < N"

section \<open>set_bnd\<close>

text \<open>
  Lines 26 to 30. The four assignments run one after the other on the buffer \<open>x\<close>; the
  negative indices \<^verbatim>\<open>-1\<close> and \<^verbatim>\<open>-2\<close> count from the end of the axis. The boundary kind
  \<open>b\<close> is a parameter that the body never reads. The function returns its argument.
\<close>

definition set_bnd :: "int \<Rightarrow> ref \<Rightarrow> store \<Rightarrow> ref \<times> store" where
  "set_bnd b x s0 =
     (let n = rows s0 x; m = cols s0 x;
          s1 = wr x 0 0 ((rd s0 x 1 0 + rd s0 x 0 1) / 2) s0;
          s2 = wr x 0 (m - 1) ((rd s1 x 1 (m - 1) + rd s1 x 0 (m - 2)) / 2) s1;
          s3 = wr x (n - 1) 0 ((rd s2 x (n - 2) 0 + rd s2 x (n - 1) 1) / 2) s2;
          s4 = wr x (n - 1) (m - 1) ((rd s3 x (n - 2) (m - 1) + rd s3 x (n - 1) (m - 2)) / 2) s3
      in (x, s4))"

section \<open>advect\<close>

text \<open>
  Lines 53 to 86. \<open>N\<close> is the module-level grid dimension imported from
  \<^verbatim>\<open>Properties\<close> (not part of the sources at hand, so it is a parameter here); \<open>NN\<close> is
  the function's own parameter, whose default is \<open>N\<close>. The upper clamp compares with
  \<open>N + .5\<close> and assigns \<open>NN + 0.5\<close>, as the source does.

  After \<^verbatim>\<open>j, i = np.meshgrid(i, j)\<close> the array \<open>i\<close> holds the row index and \<open>j\<close> the column
  index of each cell. \<open>Vx\<close> and \<open>Vy\<close> are taken to have shape \<open>NN \<times> NN\<close>.
\<close>

definition clamp_coord :: "nat \<Rightarrow> nat \<Rightarrow> real \<Rightarrow> real" where
  "clamp_coord N NN v =
     (let v1 = (if v < 0.5 then 0.5 else v)
      in if v1 > real N + 0.5 then real NN + 0.5 else v1)"

text \<open>\<^verbatim>\<open>np.clip(a, lo, hi)\<close> is \<^verbatim>\<open>minimum(maximum(a, lo), hi)\<close>.\<close>

definition clip :: "int \<Rightarrow> int \<Rightarrow> int \<Rightarrow> int" where
  "clip v lo hi = min (max v lo) hi"

definition advect_x :: "nat \<Rightarrow> nat \<Rightarrow> real \<Rightarrow> ndarray \<Rightarrow> nat \<Rightarrow> nat \<Rightarrow> real" where
  "advect_x N NN dt VX i j =
     (let dtx = dt * (real NN - 2); tmp1 = dtx * cells VX i j
      in clamp_coord N NN (real i - tmp1))"

definition advect_y :: "nat \<Rightarrow> nat \<Rightarrow> real \<Rightarrow> ndarray \<Rightarrow> nat \<Rightarrow> nat \<Rightarrow> real" where
  "advect_y N NN dt VY i j =
     (let dty = dt * (real NN - 2); tmp2 = dty * cells VY i j
      in clamp_coord N NN (real j - tmp2))"

definition advect_i0 :: "nat \<Rightarrow> nat \<Rightarrow> real \<Rightarrow> ndarray \<Rightarrow> nat \<Rightarrow> nat \<Rightarrow> int" where
  "advect_i0 N NN dt VX i j = clip \<lfloor>advect_x N NN dt VX i j\<rfloor> 0 (int NN - 1)"

definition advect_i1 :: "nat \<Rightarrow> nat \<Rightarrow> real \<Rightarrow> ndarray \<Rightarrow> nat \<Rightarrow> nat \<Rightarrow> int" where
  "advect_i1 N NN dt VX i j = clip (\<lfloor>advect_x N NN dt VX i j\<rfloor> + 1) 0 (int NN - 1)"

definition advect_j0 :: "nat \<Rightarrow> nat \<Rightarrow> real \<Rightarrow> ndarray \<Rightarrow> nat \<Rightarrow> nat \<Rightarrow> int" where
  "advect_j0 N NN dt VY i j = clip \<lfloor>advect_y N NN dt VY i j\<rfloor> 0 (int NN - 1)"

definition advect_j1 :: "nat \<Rightarrow> nat \<Rightarrow> real \<Rightarrow> ndarray \<Rightarrow> nat \<Rightarrow> nat \<Rightarrow> int" where
  "advect_j1 N NN dt VY i j = clip (\<lfloor>advect_y N NN dt VY i j\<rfloor> + 1) 0 (int NN - 1)"

text \<open>
  One element of a numpy integer-array read \<^verbatim>\<open>d0[i0, j0]\<close>: an index below zero counts
  from the end, and an index outside the shape raises IndexError.
\<close>

definition gather :: "ndarray \<Rightarrow> int \<Rightarrow> int \<Rightarrow> error + real" where
  "gather A i j =
     (let n = int (nrows A); m = int (ncols A);
          i' = (if i < 0 then i + n else i);
          j' = (if j < 0 then j + m else j)
      in if 0 \<le> i' \<and> i' < n \<and> 0 \<le> j' \<and> j' < m
         then Inr (cells A (nat i') (nat j')) else Inl IndexError)"

definition advect_cell ::
  "nat \<Rightarrow> nat \<Rightarrow> real \<Rightarrow> ndarray \<Rightarrow> ndarray \<Rightarrow> ndarray \<Rightarrow> nat \<Rightarrow> nat \<Rightarrow> error + real" where
  "advect_cell N NN dt D0 VX VY i j =
     (let x = advect_x N NN dt VX i j;
          y = advect_y N NN dt VY i j;
          i0 = advect_i0 N NN dt VX i j;
          i1 = advect_i1 N NN dt VX i j;
          j0 = advect_j0 N NN dt VY i j;
          j1 = advect_j1 N NN dt VY i j;
          s1 = x - real_of_int i0;
          s0 = 1 - s1;
          t1 = y - real_of_int j0;
          t0 = 1 - t1
      in case (gather D0 i0 j0, gather D0 i0 j1, gather D0 i1 j0, gather D0 i1 j1) of
           (Inr d00, Inr d01, Inr d10, Inr d11) \<Rightarrow>
             Inr (s0 * (t0 * d00 + t1 * d01) + s1 * (t0 * d10 + t1 * d11))
         | _ \<Rightarrow> Inl IndexError)"

text \<open>
  The array that the expression of lines 81 to 84 creates: shape \<open>NN \<times> NN\<close>, one
  interpolated value per cell.
\<close>

definition advect_array ::
  "nat \<Rightarrow> nat \<Rightarrow> real \<Rightarrow> ndarray \<Rightarrow> ndarray \<Rightarrow> ndarray \<Rightarrow> ndarray" where
  "advect_array N NN dt D0 VX VY =
     \<lparr>nrows = NN, ncols = NN,
      cells = (\<lambda>i j. if i < NN \<and> j < NN
                      then projr (advect_cell N NN dt D0 VX VY i j) else 0)\<rparr>"

text \<open>
  The parameter \<open>d\<close> is never read or written: line 81 binds the name \<open>d\<close> to the new
  array, \<open>set_bnd\<close> then works on that new array, and it is returned. A read outside
  \<open>d0\<close> in any cell makes the whole expression raise.
\<close>

definition advect ::
  "nat \<Rightarrow> int \<Rightarrow> ref \<Rightarrow> ref \<Rightarrow> ref \<Rightarrow> ref \<Rightarrow> real \<Rightarrow> nat \<Rightarrow> store \<Rightarrow> error + ref \<times> store" where
  "advect N b d d0 Vx Vy dt NN s =
     (let D0 = heap s d0; VX = heap s Vx; VY = heap s Vy
      in if list_all (\<lambda>i. list_all (\<lambda>j. \<not> isl (advect_cell N NN dt D0 VX VY i j)) [0..<NN])
              [0..<NN]
         then (let (d1, s1) = alloc (advect_array N NN dt D0 VX VY) s
               in Inr (set_bnd b d1 s1))
         else Inl IndexError)"

section \<open>lin_solve\<close>

text \<open>
  Lines 108 to 115. The slice assignment of lines 110 to 113 evaluates its right-hand side
  to a temporary array and then stores it in the interior of \<open>x\<close>: every cell of the
  right-hand side is read from the store as it is before the assignment. \<open>x0\<close> is taken
  to have the shape of \<open>x\<close>.
\<close>

definition assign_interior :: "ref \<Rightarrow> (nat \<Rightarrow> nat \<Rightarrow> real) \<Rightarrow> store \<Rightarrow> store" where
  "assign_interior x f s =
     s\<lparr>heap := (heap s)(x := (heap s x)\<lparr>cells :=
         (\<lambda>i j. if 1 \<le> i \<and> i + 1 < rows s x \<and> 1 \<le> j \<and> j + 1 < cols s x
                then f i j else rd s x i j)\<rparr>)\<rparr>"

definition relax :: "ref \<Rightarrow> ref \<Rightarrow> real \<Rightarrow> real \<Rightarrow> store \<Rightarrow> store" where
  "relax x x0 a cRecip s =
     assign_interior x
       (\<lambda>i j. (rd s x0 i j + a * (rd s x (i - 1) j + rd s x (i + 1) j +
                                   rd s x i (j - 1) + rd s x i (j + 1))) * cRecip) s"

text \<open>The loop \<^verbatim>\<open>for k in range(iter)\<close>; its state is the name \<open>x\<close> and the store.\<close>

fun lin_solve_loop ::
  "nat \<Rightarrow> int \<Rightarrow> ref \<Rightarrow> real \<Rightarrow> real \<Rightarrow> ref \<times> store \<Rightarrow> ref \<times> store" where
  "lin_solve_loop 0 b x0 a cRecip (x, s) = (x, s)"
| "lin_solve_loop (Suc k) b x0 a cRecip (x, s) =
     lin_solve_loop k b x0 a cRecip (set_bnd b x (relax x x0 a cRecip s))"

text \<open>
  \<open>iter\<close> is the module-level sweep count imported from \<^verbatim>\<open>Properties\<close>, a parameter
  here. Line 108 divides by \<open>c\<close>: under \<^verbatim>\<open>@njit\<close> a zero divisor raises ZeroDivisionError.
\<close>

definition lin_solve ::
  "nat \<Rightarrow> int \<Rightarrow> ref \<Rightarrow> ref \<Rightarrow> real \<Rightarrow> real \<Rightarrow> store \<Rightarrow> error + ref \<times> store" where
  "lin_solve iter b x x0 a c s =
     (if c = 0 then Inl ZeroDivisionError
      else (let cRecip = 1 / c in Inr (lin_solve_loop iter b x0 a cRecip (x, s))))"

section \<open>diffuse\<close>

text \<open>Lines 137 to 139.\<close>

definition diffuse ::
  "nat \<Rightarrow> int \<Rightarrow> ref \<Rightarrow> ref \<Rightarrow> real \<Rightarrow> real \<Rightarrow> nat \<Rightarrow> store \<Rightarrow> error + ref \<times> store" where
  "diffuse iter b x x0 diff dt NN s =
     (let a = dt * diff * (real NN - 2) * (real NN - 2)
      in lin_solve iter b x x0 a (1 + 6 * a) s)"

section \<open>project\<close>

text \<open>
  Lines 165 to 184. Both loop nests run \<open>j\<close> outside and \<open>i\<close> inside over
  \<^verbatim>\<open>range(1, NN-1)\<close> and write one cell at a time through the references.
\<close>

definition project_div_cell ::
  "ref \<Rightarrow> ref \<Rightarrow> ref \<Rightarrow> ref \<Rightarrow> nat \<Rightarrow> nat \<Rightarrow> nat \<Rightarrow> store \<Rightarrow> store" where
  "project_div_cell velocX velocY p dv NN j i s =
     (let s1 = wr dv i j (- 0.5 * (rd s velocX (i + 1) j - rd s velocX (i - 1) j +
                                    rd s velocY i (j + 1) - rd s velocY i (j - 1)) / real NN) s
      in wr p i j 0 s1)"

definition project_vel_cell ::
  "ref \<Rightarrow> ref \<Rightarrow> ref \<Rightarrow> nat \<Rightarrow> nat \<Rightarrow> nat \<Rightarrow> store \<Rightarrow> store" where
  "project_vel_cell velocX velocY p NN j i s =
     (let s1 = wr velocX i j (rd s velocX i j -
                 0.5 * (rd s p (i + 1) j - rd s p (i - 1) j +
                        rd s p i (j + 1) - rd s p i (j - 1)) * real NN) s
      in wr velocY i j (rd s1 velocY i j -
                 0.5 * (rd s1 p (i + 1) j - rd s1 p (i - 1) j +
                        rd s1 p i (j + 1) - rd s1 p i (j - 1)) * real NN) s1)"

definition for_cells :: "nat \<Rightarrow> (nat \<Rightarrow> nat \<Rightarrow> store \<Rightarrow> store) \<Rightarrow> store \<Rightarrow> store" where
  "for_cells NN body s = fold (\<lambda>j. fold (\<lambda>i. body j i) [1..<NN - 1]) [1..<NN - 1] s"

definition project ::
  "nat \<Rightarrow> ref \<Rightarrow> ref \<Rightarrow> ref \<Rightarrow> ref \<Rightarrow> nat \<Rightarrow> store \<Rightarrow> error + (ref \<times> ref \<times> ref \<times> ref) \<times> store" where
  "project iter velocX velocY p dv NN s0 =
     (let s1 = for_cells NN (project_div_cell velocX velocY p dv NN) s0;
          (dv1, s2) = set_bnd 0 dv s1;
          (p1, s3) = set_bnd 0 p s2
      in case lin_solve iter 0 p1 dv1 1 6 s3 of
           Inl e \<Rightarrow> Inl e
         | Inr (p2, s4) \<Rightarrow>
             (let s5 = for_cells NN (project_vel_cell velocX velocY p2 NN) s4;
                  (vx1, s6) = set_bnd 1 velocX s5;
                  (vy1, s7) = set_bnd 2 velocY s6
              in Inr ((vx1, vy1, p2, dv1), s7)))"


text \<open>The store after one pass of the loop body of \<open>lin_solve\<close> (lines 110 to 114).\<close>

definition sweep :: "int \<Rightarrow> ref \<Rightarrow> ref \<Rightarrow> real \<Rightarrow> real \<Rightarrow> store \<Rightarrow> store" where
  "sweep b x x0 a cRecip s = snd (set_bnd b x (relax x x0 a cRecip s))"

text \<open>
  Two observation points of \<open>project\<close>: the store after the pressure solve of line 174,
  and the store at the return of line 184.
\<close>

definition project_solved :: "nat \<Rightarrow> ref \<Rightarrow> ref \<Rightarrow> ref \<Rightarrow> ref \<Rightarrow> nat \<Rightarrow> store \<Rightarrow> store" where
  "project_solved iter velocX velocY p dv NN s =
     (sweep 0 p dv 1 (1 / 6) ^^ iter)
       (snd (set_bnd 0 p (snd (set_bnd 0 dv
          (for_cells NN (project_div_cell velocX velocY p dv NN) s)))))"

definition project_store :: "nat \<Rightarrow> ref \<Rightarrow> ref \<Rightarrow> ref \<Rightarrow> ref \<Rightarrow> nat \<Rightarrow> store \<Rightarrow> store" where
  "project_store iter velocX velocY p dv NN s =
     snd (set_bnd 2 velocY (snd (set_bnd 1 velocX
       (for_cells NN (project_vel_cell velocX velocY p NN)
          (project_solved iter velocX velocY p dv NN s)))))"

section \<open>Cell classes and predicates used in the statements\<close>

text \<open>A cell of the first or last row or column that is not a corner.\<close>

definition edge :: "nat \<Rightarrow> nat \<Rightarrow> nat \<Rightarrow> bool" where
  "edge N i j \<longleftrightarrow> i < N \<and> j < N \<and> \<not> interior N i j \<and> \<not> corner N i j"

definition zero_on :: "nat \<Rightarrow> store \<Rightarrow> ref \<Rightarrow> bool" where
  "zero_on N s r \<longleftrightarrow> list_all (\<lambda>i. list_all (\<lambda>j. rd s r i j = 0) [0..<N]) [0..<N]"

text \<open>
  Zero on every edge cell that is not a corner; on a \<open>2 \<times> 2\<close> grid, where all four
  cells are corners that \<open>set_bnd\<close> computes from one another, zero on all four.
\<close>

definition zero_rim :: "nat \<Rightarrow> store \<Rightarrow> ref \<Rightarrow> bool" where
  "zero_rim N s r \<longleftrightarrow>
     list_all (\<lambda>i. list_all (\<lambda>j. interior N i j \<or> (corner N i j \<and> N \<noteq> 2) \<or> rd s r i j = 0)
       [0..<N]) [0..<N]"

definition square :: "nat \<Rightarrow> store \<Rightarrow> ref \<Rightarrow> bool" where
  "square N s r \<longleftrightarrow> rows s r = N \<and> cols s r = N"

text \<open>
  Two stores that hold the same buffers except that buffer \<open>x\<close> may differ in the cells
  that are not interior cells of an \<open>N \<times> N\<close> grid.
\<close>

definition same_but_rim :: "nat \<Rightarrow> ref \<Rightarrow> store \<Rightarrow> store \<Rightarrow> bool" where
  "same_but_rim N x s t \<longleftrightarrow>
     (\<forall>r. r \<noteq> x \<longrightarrow> heap s r = heap t r) \<and>
     rows s x = rows t x \<and> cols s x = cols t x \<and>
     (\<forall>i j. interior N i j \<longrightarrow> rd s x i j = rd t x i j)"

section \<open>Concrete inputs\<close>

definition ex_grid2 :: store where
  "ex_grid2 = store_of [[[0, 4], [0, 0]]]"

definition ex_grid3 :: store where
  "ex_grid3 = store_of [[[1, 2, 3], [4, 5, 6], [7, 8, 10]]]"

definition ex_advect3 :: store where
  "ex_advect3 = store_of [[[9, 9, 9], [9, 9, 9], [9, 9, 9]],
                          [[1, 2, 3], [4, 5, 6], [7, 8, 10]],
                          [[0, 0, 0], [0, 0, 0], [0, 0, 0]],
                          [[0, 0, 0], [0, 0, 0], [0, 0, 0]]]"

definition ex_fast3 :: store where
  "ex_fast3 = store_of [[[9, 9, 9], [9, 9, 9], [9, 9, 9]],
                        [[1, 2, 3], [4, 5, 6], [7, 8, 10]],
                        [[0, 0, 0], [0, 1000, 0], [0, 0, 0]],
                        [[0, 0, 0], [0, - 1000, 0], [0, 0, 0]]]"

text \<open>
  Stores for \<open>project\<close>: buffer 0 is \<open>velocX\<close>, 1 is \<open>velocY\<close>, 2 is \<open>p\<close>, 3 is
  \<open>div\<close>.
\<close>

definition ex_rest3 :: store where
  "ex_rest3 = store_of [[[0, 0, 0], [0, 0, 0], [0, 0, 0]],
                        [[0, 0, 0], [0, 0, 0], [0, 0, 0]],
                        [[0, 0, 0], [0, 0, 0], [0, 0, 0]],
                        [[0, 0, 0], [0, 0, 0], [0, 0, 0]]]"

definition ex_stale_p3 :: store where
  "ex_stale_p3 = store_of [[[0, 0, 0], [0, 0, 0], [0, 0, 0]],
                           [[0, 0, 0], [0, 0, 0], [0, 0, 0]],
                           [[0, 0, 0], [0, 0, 1], [0, 0, 0]],
                           [[0, 0, 0], [0, 0, 0], [0, 0, 0]]]"

definition ex_stale_div3 :: store where
  "ex_stale_div3 = store_of [[[0, 0, 0], [0, 0, 0], [0, 0, 0]],
                             [[0, 0, 0], [0, 0, 0], [0, 0, 0]],
                             [[0, 0, 0], [0, 0, 0], [0, 0, 0]],
                             [[0, 0, 0], [0, 0, 1], [0, 0, 0]]]"

definition ex_stale3 :: store where
  "ex_stale3 = store_of [[[0, 0, 0], [0, 0, 0], [0, 0, 0]],
                         [[0, 0, 0], [0, 0, 0], [0, 0, 0]],
                         [[7, 0, 7], [0, 7, 1], [7, 0, 7]],
                         [[1, 1, 1], [1, 1, 1], [1, 1, 1]]]"

definition ex_zero_rim3 :: store where
  "ex_zero_rim3 = store_of [[[0, 0, 0], [0, 0, 0], [0, 0, 0]],
                            [[0, 0, 0], [0, 0, 0], [0, 0, 0]],
                            [[5, 0, 5], [0, 7, 0], [5, 0, 5]],
                            [[3, 0, 3], [0, 4, 0], [3, 0, 3]]]"

definition ex_project4 :: store where
  "ex_project4 = store_of [[[0, 0, 0, 0], [0, 0, 0, 0], [0, 0, 8, 0], [0, 0, 0, 0]],
                           [[0, 0, 0, 0], [0, 0, 0, 0], [0, 0, 0, 0], [0, 0, 0, 0]],
                           [[0, 0, 0, 0], [0, 0, 0, 0], [0, 0, 0, 0], [0, 0, 0, 0]],
                           [[0, 0, 0, 0], [0, 0, 0, 0], [0, 0, 0, 0], [0, 0, 0, 0]]]"

definition ex_solve3 :: store where
  "ex_solve3 = store_of [[[1, 2, 3], [4, 5, 6], [7, 8, 10]],
                         [[0, 0, 0], [0, 9, 0], [0, 0, 0]]]"

section \<open>Store lemmas\<close>

lemma rd_wr [simp]:
  "rd (wr r i j v s) r' i' j' = (if r' = r \<and> i' = i \<and> j' = j then v else rd s r' i' j')"
  by (simp add: rd_def wr_def)

lemma rows_wr [simp]: "rows (wr r i j v s) r' = rows s r'"
  by (simp add: rows_def wr_def)

lemma cols_wr [simp]: "cols (wr r i j v s) r' = cols s r'"
  by (simp add: cols_def wr_def)

lemma brk_wr [simp]: "brk (wr r i j v s) = brk s"
  by (simp add: wr_def)

lemma heap_wr_other [simp]: "r' \<noteq> r \<Longrightarrow> heap (wr r i j v s) r' = heap s r'"
  by (simp add: wr_def)

lemma rd_store_of [simp]:
  "rd (store_of As) r i j =
     (if r < length As \<and> i < length (As ! r) \<and> j < length (As ! r ! i)
      then As ! r ! i ! j else 0)"
  by (simp add: rd_def store_of_def array_of_def)

lemma rows_store_of [simp]:
  "rows (store_of As) r = (if r < length As then length (As ! r) else 0)"
  by (simp add: rows_def store_of_def array_of_def)

lemma cols_store_of [simp]:
  "cols (store_of As) r =
     (if r < length As then (case As ! r of [] \<Rightarrow> 0 | x # _ \<Rightarrow> length x) else 0)"
  by (simp add: cols_def store_of_def array_of_def)

lemma brk_store_of [simp]: "brk (store_of As) = length As"
  by (simp add: store_of_def)

section \<open>set_bnd: corners only\<close>

lemma fst_set_bnd [simp]: "fst (set_bnd b x s) = x"
  by (simp add: set_bnd_def Let_def)

lemma rows_set_bnd [simp]: "rows (snd (set_bnd b x s)) r = rows s r"
  by (simp add: set_bnd_def Let_def)

lemma cols_set_bnd [simp]: "cols (snd (set_bnd b x s)) r = cols s r"
  by (simp add: set_bnd_def Let_def)

lemma brk_set_bnd [simp]: "brk (snd (set_bnd b x s)) = brk s"
  by (simp add: set_bnd_def Let_def)

lemma heap_set_bnd_other [simp]: "r \<noteq> x \<Longrightarrow> heap (snd (set_bnd b x s)) r = heap s r"
  by (simp add: set_bnd_def Let_def)

lemma rd_set_bnd_other [simp]: "r \<noteq> x \<Longrightarrow> rd (snd (set_bnd b x s)) r i j = rd s r i j"
  by (simp add: rd_def)

lemma rd_set_bnd_frame:
  assumes "rows s x = N" "cols s x = N" "\<not> corner N i j"
  shows "rd (snd (set_bnd b x s)) x i j = rd s x i j"
  using assms by (auto simp add: set_bnd_def Let_def corner_def)

lemma set_bnd_kind: "set_bnd b x s = set_bnd b' x s"
  by (simp add: set_bnd_def)

lemma rd_set_bnd_corners:
  assumes "3 \<le> N" "rows s x = N" "cols s x = N"
  shows "rd (snd (set_bnd b x s)) x 0 0 = (rd s x 1 0 + rd s x 0 1) / 2"
    and "rd (snd (set_bnd b x s)) x 0 (N - 1) = (rd s x 1 (N - 1) + rd s x 0 (N - 2)) / 2"
    and "rd (snd (set_bnd b x s)) x (N - 1) 0 = (rd s x (N - 2) 0 + rd s x (N - 1) 1) / 2"
    and "rd (snd (set_bnd b x s)) x (N - 1) (N - 1) =
           (rd s x (N - 2) (N - 1) + rd s x (N - 1) (N - 2)) / 2"
  using assms by (auto simp add: set_bnd_def Let_def)


text \<open>
  C6 (as amended). For a square buffer of dimension \<open>N \<ge> 2\<close>, \<open>set_bnd\<close> returns its
  argument, leaves every cell that is not one of the four corners unchanged, leaves every
  other buffer unchanged, and does not depend on the boundary kind. For \<open>N \<ge> 3\<close> each
  corner becomes the average of its two neighbours along the edges: top-left of the cell
  below and the cell to the right, top-right of the cell below and the cell to the left,
  bottom-left of the cell above and the cell to the right, bottom-right of the cell above
  and the cell to the left.
\<close>

theorem set_bnd_corners_only:
  assumes "2 \<le> N" and "rows s x = N" and "cols s x = N"
  shows "fst (set_bnd b x s) = x
       \<and> (\<forall>i j. \<not> corner N i j \<longrightarrow> rd (snd (set_bnd b x s)) x i j = rd s x i j)
       \<and> (\<forall>r. r \<noteq> x \<longrightarrow> heap (snd (set_bnd b x s)) r = heap s r)
       \<and> set_bnd b x s = set_bnd b' x s
       \<and> (3 \<le> N \<longrightarrow>
            rd (snd (set_bnd b x s)) x 0 0 = (rd s x 1 0 + rd s x 0 1) / 2
          \<and> rd (snd (set_bnd b x s)) x 0 (N - 1) = (rd s x 1 (N - 1) + rd s x 0 (N - 2)) / 2
          \<and> rd (snd (set_bnd b x s)) x (N - 1) 0 = (rd s x (N - 2) 0 + rd s x (N - 1) 1) / 2
          \<and> rd (snd (set_bnd b x s)) x (N - 1) (N - 1) =
              (rd s x (N - 2) (N - 1) + rd s x (N - 1) (N - 2)) / 2)"
  using assms rd_set_bnd_frame [of s x N] set_bnd_kind [of b x s b']
    rd_set_bnd_corners [of N s x b]
  by simp

theorem set_bnd_corners_only_witness:
  "rows ex_grid3 0 = 3 \<and> cols ex_grid3 0 = 3
   \<and> rd (snd (set_bnd 1 0 ex_grid3)) 0 0 0 = 3 \<and> rd (snd (set_bnd 1 0 ex_grid3)) 0 0 2 = 4
   \<and> rd (snd (set_bnd 1 0 ex_grid3)) 0 2 0 = 6 \<and> rd (snd (set_bnd 1 0 ex_grid3)) 0 2 2 = 7
   \<and> rd (snd (set_bnd 1 0 ex_grid3)) 0 1 2 = 6"
proof -
  have h: "(2::nat) \<le> 3" "rows ex_grid3 0 = 3" "cols ex_grid3 0 = 3"
    by (simp_all add: ex_grid3_def)
  note T = set_bnd_corners_only [OF h, of 1 2]
  have c: "\<not> corner 3 1 2" by (simp add: corner_def)
  from T c have "rd (snd (set_bnd 1 0 ex_grid3)) 0 1 2 = rd ex_grid3 0 1 2" by blast
  moreover from T have "(3::nat) \<le> 3 \<longrightarrow>
        rd (snd (set_bnd 1 0 ex_grid3)) 0 0 0 = (rd ex_grid3 0 1 0 + rd ex_grid3 0 0 1) / 2
      \<and> rd (snd (set_bnd 1 0 ex_grid3)) 0 0 (3 - 1) =
          (rd ex_grid3 0 1 (3 - 1) + rd ex_grid3 0 0 (3 - 2)) / 2
      \<and> rd (snd (set_bnd 1 0 ex_grid3)) 0 (3 - 1) 0 =
          (rd ex_grid3 0 (3 - 2) 0 + rd ex_grid3 0 (3 - 1) 1) / 2
      \<and> rd (snd (set_bnd 1 0 ex_grid3)) 0 (3 - 1) (3 - 1) =
          (rd ex_grid3 0 (3 - 2) (3 - 1) + rd ex_grid3 0 (3 - 1) (3 - 2)) / 2"
    by blast
  ultimately show ?thesis using h by (simp add: ex_grid3_def)
qed

text \<open>
  On a \<open>2 \<times> 2\<close> buffer all four cells are corners and each assignment reads cells that
  an earlier one has already replaced: the top-right cell ends up neither as the average
  of what its two neighbours held before the call nor as the average of what they hold
  after it.
\<close>

theorem set_bnd_2x2_counterexample:
  "rows ex_grid2 0 = 2 \<and> cols ex_grid2 0 = 2
   \<and> rd (snd (set_bnd 0 0 ex_grid2)) 0 0 1 \<noteq> (rd ex_grid2 0 0 0 + rd ex_grid2 0 1 1) / 2
   \<and> rd (snd (set_bnd 0 0 ex_grid2)) 0 0 1 \<noteq>
       (rd (snd (set_bnd 0 0 ex_grid2)) 0 0 0 + rd (snd (set_bnd 0 0 ex_grid2)) 0 1 1) / 2"
  by (simp add: ex_grid2_def set_bnd_def Let_def)

section \<open>lin_solve: sweeps\<close>

lemma rd_assign_interior:
  "rd (assign_interior x f s) r i j =
     (if r = x \<and> 1 \<le> i \<and> i + 1 < rows s x \<and> 1 \<le> j \<and> j + 1 < cols s x
      then f i j else rd s r i j)"
  by (simp add: assign_interior_def rd_def)

lemma rows_assign_interior [simp]: "rows (assign_interior x f s) r = rows s r"
  by (simp add: assign_interior_def rows_def)

lemma cols_assign_interior [simp]: "cols (assign_interior x f s) r = cols s r"
  by (simp add: assign_interior_def cols_def)

lemma brk_assign_interior [simp]: "brk (assign_interior x f s) = brk s"
  by (simp add: assign_interior_def)

lemma heap_assign_interior_other [simp]:
  "r \<noteq> x \<Longrightarrow> heap (assign_interior x f s) r = heap s r"
  by (simp add: assign_interior_def)

lemma rows_relax [simp]: "rows (relax x x0 a cR s) r = rows s r"
  by (simp add: relax_def)

lemma cols_relax [simp]: "cols (relax x x0 a cR s) r = cols s r"
  by (simp add: relax_def)

lemma brk_relax [simp]: "brk (relax x x0 a cR s) = brk s"
  by (simp add: relax_def)

lemma heap_relax_other [simp]: "r \<noteq> x \<Longrightarrow> heap (relax x x0 a cR s) r = heap s r"
  by (simp add: relax_def)

lemma rd_relax:
  "rd (relax x x0 a cR s) r i j =
     (if r = x \<and> 1 \<le> i \<and> i + 1 < rows s x \<and> 1 \<le> j \<and> j + 1 < cols s x
      then (rd s x0 i j + a * (rd s x (i - 1) j + rd s x (i + 1) j +
                               rd s x i (j - 1) + rd s x i (j + 1))) * cR
      else rd s r i j)"
  by (simp add: relax_def rd_assign_interior)

lemma rows_sweep [simp]: "rows (sweep b x x0 a cR s) r = rows s r"
  by (simp add: sweep_def)

lemma cols_sweep [simp]: "cols (sweep b x x0 a cR s) r = cols s r"
  by (simp add: sweep_def)

lemma brk_sweep [simp]: "brk (sweep b x x0 a cR s) = brk s"
  by (simp add: sweep_def)

lemma heap_sweep_other [simp]: "r \<noteq> x \<Longrightarrow> heap (sweep b x x0 a cR s) r = heap s r"
  by (simp add: sweep_def)

lemma rows_sweeps [simp]: "rows ((sweep b x x0 a cR ^^ k) s) r = rows s r"
  by (induction k) simp_all

lemma cols_sweeps [simp]: "cols ((sweep b x x0 a cR ^^ k) s) r = cols s r"
  by (induction k) simp_all

lemma brk_sweeps [simp]: "brk ((sweep b x x0 a cR ^^ k) s) = brk s"
  by (induction k) simp_all

lemma heap_sweeps_other [simp]: "r \<noteq> x \<Longrightarrow> heap ((sweep b x x0 a cR ^^ k) s) r = heap s r"
  by (induction k) simp_all

lemma lin_solve_loop_sweeps:
  "lin_solve_loop k b x0 a cR (x, s) = (x, (sweep b x x0 a cR ^^ k) s)"
proof (induction k arbitrary: s)
  case 0
  show ?case by simp
next
  case (Suc k)
  have "set_bnd b x (relax x x0 a cR s) = (x, sweep b x x0 a cR s)"
    by (simp add: sweep_def prod_eq_iff)
  then have "lin_solve_loop (Suc k) b x0 a cR (x, s) =
      lin_solve_loop k b x0 a cR (x, sweep b x x0 a cR s)"
    by simp
  also have "\<dots> = (x, (sweep b x x0 a cR ^^ k) (sweep b x x0 a cR s))"
    by (rule Suc.IH)
  also have "(sweep b x x0 a cR ^^ k) (sweep b x x0 a cR s) = (sweep b x x0 a cR ^^ Suc k) s"
    by (simp add: funpow_swap1)
  finally show ?case .
qed

lemma lin_solve_sweeps:
  "c \<noteq> 0 \<Longrightarrow> lin_solve iter b x x0 a c s = Inr (x, (sweep b x x0 a (1 / c) ^^ iter) s)"
  by (simp add: lin_solve_def lin_solve_loop_sweeps)

lemma rd_sweep_interior:
  assumes "rows s x = N" "cols s x = N" "interior N i j"
  shows "rd (sweep b x x0 a cR s) x i j = rd (relax x x0 a cR s) x i j"
proof -
  have "\<not> corner N i j"
    using assms(3) by (auto simp add: interior_def corner_def)
  then show ?thesis
    unfolding sweep_def using assms(1,2) by (intro rd_set_bnd_frame [of _ _ N]) simp_all
qed

text \<open>
  C5. For a divisor \<open>c \<noteq> 0\<close> and a square buffer \<open>x\<close> of dimension \<open>N\<close>, \<open>lin_solve\<close>
  returns \<open>x\<close> after exactly \<open>iter\<close> passes. Pass number \<open>k + 1\<close> starts from the store
  \<open>t\<close> left by the first \<open>k\<close> passes; it assigns to every interior cell the value
  \<open>(x0[i,j] + a * (x[i-1,j] + x[i+1,j] + x[i,j-1] + x[i,j+1])) / c\<close> with all five reads
  taken from \<open>t\<close>, leaves the other cells of \<open>x\<close> as they are in \<open>t\<close>, and then applies
  \<open>set_bnd\<close> to \<open>x\<close>.
\<close>

theorem lin_solve_jacobi:
  assumes "c \<noteq> 0" and "rows s x = N" and "cols s x = N"
  shows "lin_solve iter b x x0 a c s = Inr (x, (sweep b x x0 a (1 / c) ^^ iter) s)
       \<and> (\<forall>k. (sweep b x x0 a (1 / c) ^^ Suc k) s =
                snd (set_bnd b x (relax x x0 a (1 / c) ((sweep b x x0 a (1 / c) ^^ k) s))))
       \<and> (\<forall>k i j. interior N i j \<longrightarrow>
            rd (relax x x0 a (1 / c) ((sweep b x x0 a (1 / c) ^^ k) s)) x i j =
              (rd ((sweep b x x0 a (1 / c) ^^ k) s) x0 i j +
               a * (rd ((sweep b x x0 a (1 / c) ^^ k) s) x (i - 1) j +
                    rd ((sweep b x x0 a (1 / c) ^^ k) s) x (i + 1) j +
                    rd ((sweep b x x0 a (1 / c) ^^ k) s) x i (j - 1) +
                    rd ((sweep b x x0 a (1 / c) ^^ k) s) x i (j + 1))) / c)
       \<and> (\<forall>k i j. \<not> interior N i j \<longrightarrow>
            rd (relax x x0 a (1 / c) ((sweep b x x0 a (1 / c) ^^ k) s)) x i j =
              rd ((sweep b x x0 a (1 / c) ^^ k) s) x i j)"
  using assms by (simp add: lin_solve_sweeps sweep_def rd_relax interior_def field_simps)

theorem lin_solve_jacobi_witness:
  "(2::real) \<noteq> 0 \<and> rows ex_solve3 0 = 3 \<and> cols ex_solve3 0 = 3
   \<and> \<not> isl (lin_solve 1 0 0 1 1 2 ex_solve3)
   \<and> fst (projr (lin_solve 1 0 0 1 1 2 ex_solve3)) = 0
   \<and> rd (snd (projr (lin_solve 1 0 0 1 1 2 ex_solve3))) 0 1 1 = 29 / 2
   \<and> rd (snd (projr (lin_solve 1 0 0 1 1 2 ex_solve3))) 0 0 0 = 3
   \<and> rd (snd (projr (lin_solve 1 0 0 1 1 2 ex_solve3))) 0 0 1 = 2"
proof -
  have h: "(2::real) \<noteq> 0" "rows ex_solve3 0 = 3" "cols ex_solve3 0 = 3"
    by (simp_all add: ex_solve3_def)
  note T = lin_solve_jacobi [OF h, where iter = 1 and b = 0 and ?x0.0 = 1 and a = 1]
  from T have 1: "lin_solve 1 0 0 1 1 2 ex_solve3 = Inr (0, (sweep 0 0 1 1 (1 / 2) ^^ 1) ex_solve3)"
    by blast
  have 2: "rd (sweep 0 0 1 1 (1 / 2) ex_solve3) 0 1 1 = 29 / 2"
    "rd (sweep 0 0 1 1 (1 / 2) ex_solve3) 0 0 0 = 3"
    "rd (sweep 0 0 1 1 (1 / 2) ex_solve3) 0 0 1 = 2"
    by (simp_all add: sweep_def set_bnd_def rd_relax ex_solve3_def Let_def)
  show ?thesis using h 1 2 by simp
qed

section \<open>diffuse\<close>

text \<open>
  C8. \<open>diffuse\<close> is \<open>lin_solve\<close> with the coefficients \<open>a = dt * diff * (NN - 2)\<^sup>2\<close> and
  \<open>c = 1 + 6 * a\<close>, on the same buffers and store, for all inputs: same returned
  buffer, same store, same error.
\<close>

theorem diffuse_is_lin_solve:
  "diffuse iter b x x0 diff dt NN s =
     lin_solve iter b x x0 (dt * diff * (real NN - 2)\<^sup>2) (1 + 6 * (dt * diff * (real NN - 2)\<^sup>2)) s"
  by (simp add: diffuse_def Let_def power2_eq_square mult.assoc)

section \<open>lin_solve with a = 0 and c = 1\<close>

lemma sweep_degenerate:
  assumes "rows t x = N" "cols t x = N" "interior N i j"
  shows "rd (sweep b x x0 0 1 t) x i j = rd t x0 i j"
    and "rd (sweep b x x0 0 1 t) x0 i j = rd t x0 i j"
proof -
  show 1: "rd (sweep b x x0 0 1 t) x i j = rd t x0 i j"
    using assms by (simp add: rd_sweep_interior [of t x N] rd_relax interior_def)
  show "rd (sweep b x x0 0 1 t) x0 i j = rd t x0 i j"
  proof (cases "x0 = x")
    case True
    then show ?thesis using 1 by simp
  next
    case False
    then show ?thesis by (simp add: rd_def)
  qed
qed

lemma sweeps_degenerate_rhs:
  assumes "rows s x = N" "cols s x = N" "interior N i j"
  shows "rd ((sweep b x x0 0 1 ^^ k) s) x0 i j = rd s x0 i j"
proof (induction k)
  case 0
  show ?case by simp
next
  case (Suc k)
  have "rd (sweep b x x0 0 1 ((sweep b x x0 0 1 ^^ k) s)) x0 i j =
        rd ((sweep b x x0 0 1 ^^ k) s) x0 i j"
    using assms by (intro sweep_degenerate(2) [of _ _ N]) simp_all
  then show ?case using Suc.IH by simp
qed

text \<open>
  C9. For every boundary kind, every pair of buffers \<open>x\<close> (square, of dimension
  \<open>N \<ge> 2\<close>) and \<open>x0\<close>, and every sweep count \<open>iter \<ge> 1\<close>, \<open>lin_solve\<close> with \<open>a = 0\<close>
  and \<open>c = 1\<close> returns \<open>x\<close>, and \<open>x\<close> then holds at every interior cell the value that
  \<open>x0\<close> held there before the call.
\<close>

theorem lin_solve_degenerate:
  assumes "1 \<le> iter" and "2 \<le> N" and "rows s x = N" and "cols s x = N"
  shows "\<exists>s'. lin_solve iter b x x0 0 1 s = Inr (x, s')
            \<and> (\<forall>i j. interior N i j \<longrightarrow> rd s' x i j = rd s x0 i j)"
proof -
  obtain k where k: "iter = Suc k"
    using assms(1) by (cases iter) simp_all
  let ?t = "(sweep b x x0 0 1 ^^ k) s"
  have "rd (sweep b x x0 0 1 ?t) x i j = rd s x0 i j" if "interior N i j" for i j
  proof -
    have "rd (sweep b x x0 0 1 ?t) x i j = rd ?t x0 i j"
      using assms(3,4) that by (intro sweep_degenerate(1) [of _ _ N]) simp_all
    then show ?thesis
      using sweeps_degenerate_rhs [OF assms(3,4) that] by simp
  qed
  then show ?thesis
    using lin_solve_sweeps [of 1 iter b x x0 0 s] k by simp
qed

theorem lin_solve_degenerate_witness:
  "(1::nat) \<le> 2 \<and> (2::nat) \<le> 3 \<and> rows ex_solve3 0 = 3 \<and> cols ex_solve3 0 = 3 \<and> interior 3 1 1
   \<and> \<not> isl (lin_solve 2 0 0 1 0 1 ex_solve3)
   \<and> fst (projr (lin_solve 2 0 0 1 0 1 ex_solve3)) = 0
   \<and> rd (snd (projr (lin_solve 2 0 0 1 0 1 ex_solve3))) 0 1 1 = 9"
proof -
  have h: "(1::nat) \<le> 2" "(2::nat) \<le> 3" "rows ex_solve3 0 = 3" "cols ex_solve3 0 = 3"
    by (simp_all add: ex_solve3_def)
  have i: "interior 3 1 1" by (simp add: interior_def)
  from lin_solve_degenerate [OF h, of 0 1] obtain s' where
    s': "lin_solve 2 0 0 1 0 1 ex_solve3 = Inr (0, s')"
      "\<forall>i j. interior 3 i j \<longrightarrow> rd s' 0 i j = rd ex_solve3 1 i j"
    by blast
  from s'(2) i have "rd s' 0 1 1 = rd ex_solve3 1 1 1" by blast
  then show ?thesis using h i s'(1) by (simp add: ex_solve3_def)
qed

section \<open>advect: indices\<close>

lemma clamp_coord_bounds:
  "1 / 2 \<le> clamp_coord N N v \<and> clamp_coord N N v \<le> real N + 1 / 2"
  by (simp add: clamp_coord_def Let_def)

lemma clip_bounds: "1 \<le> N \<Longrightarrow> 0 \<le> clip v 0 (int N - 1) \<and> clip v 0 (int N - 1) \<le> int N - 1"
  by (simp add: clip_def)

lemma gather_in:
  "0 \<le> i \<Longrightarrow> i < int (nrows A) \<Longrightarrow> 0 \<le> j \<Longrightarrow> j < int (ncols A) \<Longrightarrow>
     gather A i j = Inr (cells A (nat i) (nat j))"
  by (simp add: gather_def Let_def)

lemma advect_cell_Inr:
  assumes "1 \<le> N" "nrows D0 = N" "ncols D0 = N"
  shows "advect_cell N N dt D0 VX VY i j =
     Inr ((1 - (advect_x N N dt VX i j - real_of_int (advect_i0 N N dt VX i j))) *
            ((1 - (advect_y N N dt VY i j - real_of_int (advect_j0 N N dt VY i j))) *
               cells D0 (nat (advect_i0 N N dt VX i j)) (nat (advect_j0 N N dt VY i j)) +
             (advect_y N N dt VY i j - real_of_int (advect_j0 N N dt VY i j)) *
               cells D0 (nat (advect_i0 N N dt VX i j)) (nat (advect_j1 N N dt VY i j))) +
          (advect_x N N dt VX i j - real_of_int (advect_i0 N N dt VX i j)) *
            ((1 - (advect_y N N dt VY i j - real_of_int (advect_j0 N N dt VY i j))) *
               cells D0 (nat (advect_i1 N N dt VX i j)) (nat (advect_j0 N N dt VY i j)) +
             (advect_y N N dt VY i j - real_of_int (advect_j0 N N dt VY i j)) *
               cells D0 (nat (advect_i1 N N dt VX i j)) (nat (advect_j1 N N dt VY i j))))"
proof -
  have b: "0 \<le> advect_i0 N N dt VX i j" "advect_i0 N N dt VX i j < int (nrows D0)"
    "0 \<le> advect_i1 N N dt VX i j" "advect_i1 N N dt VX i j < int (nrows D0)"
    "0 \<le> advect_j0 N N dt VY i j" "advect_j0 N N dt VY i j < int (ncols D0)"
    "0 \<le> advect_j1 N N dt VY i j" "advect_j1 N N dt VY i j < int (ncols D0)"
    using assms clip_bounds [of N]
    by (simp_all add: advect_i0_def advect_i1_def advect_j0_def advect_j1_def) 
  show ?thesis
    by (simp add: advect_cell_def Let_def gather_in b)
qed

lemma advect_Inr:
  assumes "1 \<le> N" "rows s d0 = N" "cols s d0 = N"
  shows "advect N b d d0 Vx Vy dt N s =
     Inr (set_bnd b (brk s) (snd (alloc (advect_array N N dt (heap s d0) (heap s Vx) (heap s Vy)) s)))"
proof -
  have "\<not> isl (advect_cell N N dt (heap s d0) (heap s Vx) (heap s Vy) i j)" for i j
    using assms by (simp add: advect_cell_Inr [of N] rows_def cols_def)
  then show ?thesis
    by (simp add: advect_def Let_def list_all_iff alloc_def)
qed


lemma advect_cell_no_error:
  assumes "1 \<le> NN" "nrows D0 = NN" "ncols D0 = NN"
  shows "\<not> isl (advect_cell N NN dt D0 VX VY i j)"
proof -
  have b: "0 \<le> advect_i0 N NN dt VX i j" "advect_i0 N NN dt VX i j < int (nrows D0)"
    "0 \<le> advect_i1 N NN dt VX i j" "advect_i1 N NN dt VX i j < int (nrows D0)"
    "0 \<le> advect_j0 N NN dt VY i j" "advect_j0 N NN dt VY i j < int (ncols D0)"
    "0 \<le> advect_j1 N NN dt VY i j" "advect_j1 N NN dt VY i j < int (ncols D0)"
    using assms clip_bounds [of NN]
    by (simp_all add: advect_i0_def advect_i1_def advect_j0_def advect_j1_def)
  show ?thesis
    by (simp add: advect_cell_def Let_def gather_in b)
qed

lemma advect_no_error:
  assumes "1 \<le> NN" "rows s d0 = NN" "cols s d0 = NN"
  shows "\<not> isl (advect N b d d0 Vx Vy dt NN s)"
proof -
  have "\<not> isl (advect_cell N NN dt (heap s d0) (heap s Vx) (heap s Vy) i j)" for i j
    using assms by (intro advect_cell_no_error) (simp_all add: rows_def cols_def)
  then show ?thesis
    by (simp add: advect_def Let_def list_all_iff split_beta)
qed

lemma rd_alloc:
  "rd (snd (alloc A s)) r i j = (if r = brk s then cells A i j else rd s r i j)"
  by (simp add: alloc_def rd_def)

lemma rows_alloc: "rows (snd (alloc A s)) r = (if r = brk s then nrows A else rows s r)"
  by (simp add: alloc_def rows_def)

lemma cols_alloc: "cols (snd (alloc A s)) r = (if r = brk s then ncols A else cols s r)"
  by (simp add: alloc_def cols_def)

lemma heap_alloc_other: "r \<noteq> brk s \<Longrightarrow> heap (snd (alloc A s)) r = heap s r"
  by (simp add: alloc_def)

lemma brk_alloc: "brk (snd (alloc A s)) = Suc (brk s)"
  by (simp add: alloc_def)

text \<open>
  C7. With the grid dimension \<open>N \<ge> 2\<close> passed for \<open>NN\<close> (the module-level \<open>N\<close> being the
  same number) and a source buffer \<open>d0\<close> of shape \<open>N \<times> N\<close>, for every velocity field and
  every time step: in every cell the traced coordinates lie in \<open>[0.5, N + 0.5]\<close>, the four
  indices \<open>i0\<close>, \<open>i1\<close>, \<open>j0\<close>, \<open>j1\<close> lie in \<open>[0, N - 1]\<close>, each of the four reads of
  \<open>d0\<close> is inside its shape, and \<open>advect\<close> does not raise. The indices are clipped with \<open>NN\<close>
  alone, so \<open>advect\<close> does not raise for any value of the module-level \<open>N\<close> either.
\<close>

theorem advect_reads_in_bounds:
  assumes "2 \<le> N" and "rows s d0 = N" and "cols s d0 = N"
  shows "(\<forall>i j. 1 / 2 \<le> advect_x N N dt (heap s Vx) i j
              \<and> advect_x N N dt (heap s Vx) i j \<le> real N + 1 / 2
              \<and> 1 / 2 \<le> advect_y N N dt (heap s Vy) i j
              \<and> advect_y N N dt (heap s Vy) i j \<le> real N + 1 / 2
              \<and> 0 \<le> advect_i0 N N dt (heap s Vx) i j
              \<and> advect_i0 N N dt (heap s Vx) i j \<le> int N - 1
              \<and> 0 \<le> advect_i1 N N dt (heap s Vx) i j
              \<and> advect_i1 N N dt (heap s Vx) i j \<le> int N - 1
              \<and> 0 \<le> advect_j0 N N dt (heap s Vy) i j
              \<and> advect_j0 N N dt (heap s Vy) i j \<le> int N - 1
              \<and> 0 \<le> advect_j1 N N dt (heap s Vy) i j
              \<and> advect_j1 N N dt (heap s Vy) i j \<le> int N - 1
              \<and> \<not> isl (gather (heap s d0) (advect_i0 N N dt (heap s Vx) i j)
                                         (advect_j0 N N dt (heap s Vy) i j))
              \<and> \<not> isl (gather (heap s d0) (advect_i0 N N dt (heap s Vx) i j)
                                         (advect_j1 N N dt (heap s Vy) i j))
              \<and> \<not> isl (gather (heap s d0) (advect_i1 N N dt (heap s Vx) i j)
                                         (advect_j0 N N dt (heap s Vy) i j))
              \<and> \<not> isl (gather (heap s d0) (advect_i1 N N dt (heap s Vx) i j)
                                         (advect_j1 N N dt (heap s Vy) i j)))
       \<and> \<not> isl (advect N b d d0 Vx Vy dt N s)
       \<and> (\<forall>M. \<not> isl (advect M b d d0 Vx Vy dt N s))"
proof -
  have N: "1 \<le> N" using assms(1) by simp
  have sh: "nrows (heap s d0) = N" "ncols (heap s d0) = N"
    using assms(2,3) by (simp_all add: rows_def cols_def)
  have xy: "1 / 2 \<le> advect_x N N dt (heap s Vx) i j"
      "advect_x N N dt (heap s Vx) i j \<le> real N + 1 / 2"
      "1 / 2 \<le> advect_y N N dt (heap s Vy) i j"
      "advect_y N N dt (heap s Vy) i j \<le> real N + 1 / 2" for i j
    using clamp_coord_bounds [of N] by (simp_all add: advect_x_def advect_y_def Let_def)
  have ix: "0 \<le> advect_i0 N N dt (heap s Vx) i j" "advect_i0 N N dt (heap s Vx) i j \<le> int N - 1"
      "0 \<le> advect_i1 N N dt (heap s Vx) i j" "advect_i1 N N dt (heap s Vx) i j \<le> int N - 1"
      "0 \<le> advect_j0 N N dt (heap s Vy) i j" "advect_j0 N N dt (heap s Vy) i j \<le> int N - 1"
      "0 \<le> advect_j1 N N dt (heap s Vy) i j" "advect_j1 N N dt (heap s Vy) i j \<le> int N - 1"
    for i j
    using clip_bounds [OF N]
    by (simp_all add: advect_i0_def advect_i1_def advect_j0_def advect_j1_def)
  have g: "\<not> isl (gather (heap s d0) u v)"
    if "0 \<le> u" "u \<le> int N - 1" "0 \<le> v" "v \<le> int N - 1" for u v
    using that sh by (simp add: gather_in)
  have "\<not> isl (advect M b d d0 Vx Vy dt N s)" for M
    using N assms(2,3) by (rule advect_no_error)
  moreover have "\<not> isl (gather (heap s d0) (advect_i0 N N dt (heap s Vx) i j)
                                      (advect_j0 N N dt (heap s Vy) i j))"
      "\<not> isl (gather (heap s d0) (advect_i0 N N dt (heap s Vx) i j)
                                   (advect_j1 N N dt (heap s Vy) i j))"
      "\<not> isl (gather (heap s d0) (advect_i1 N N dt (heap s Vx) i j)
                                   (advect_j0 N N dt (heap s Vy) i j))"
      "\<not> isl (gather (heap s d0) (advect_i1 N N dt (heap s Vx) i j)
                                   (advect_j1 N N dt (heap s Vy) i j))" for i j
    by (intro g ix)+
  ultimately show ?thesis
    using xy ix by simp
qed

theorem advect_reads_in_bounds_witness:
  "(2::nat) \<le> 3 \<and> rows ex_fast3 1 = 3 \<and> cols ex_fast3 1 = 3
   \<and> rd ex_fast3 2 1 1 = 1000 \<and> rd ex_fast3 3 1 1 = - 1000
   \<and> advect_x 3 3 1 (heap ex_fast3 2) 1 1 = 1 / 2
   \<and> advect_y 3 3 1 (heap ex_fast3 3) 1 1 = 7 / 2
   \<and> advect_i0 3 3 1 (heap ex_fast3 2) 1 1 = 0
   \<and> advect_i1 3 3 1 (heap ex_fast3 2) 1 1 = 1
   \<and> advect_j0 3 3 1 (heap ex_fast3 3) 1 1 = 2
   \<and> advect_j1 3 3 1 (heap ex_fast3 3) 1 1 = 2
   \<and> \<not> isl (advect 3 0 0 1 2 3 1 3 ex_fast3)"
proof -
  have h: "(2::nat) \<le> 3" "rows ex_fast3 1 = 3" "cols ex_fast3 1 = 3"
    by (simp_all add: ex_fast3_def)
  have v: "advect_x 3 3 1 (heap ex_fast3 2) 1 1 = 1 / 2"
    "advect_y 3 3 1 (heap ex_fast3 3) 1 1 = 7 / 2"
    by (simp_all add: advect_x_def advect_y_def clamp_coord_def Let_def
        ex_fast3_def store_of_def array_of_def)
  have w: "advect_i0 3 3 1 (heap ex_fast3 2) 1 1 = 0"
    "advect_i1 3 3 1 (heap ex_fast3 2) 1 1 = 1"
    "advect_j0 3 3 1 (heap ex_fast3 3) 1 1 = 2"
    "advect_j1 3 3 1 (heap ex_fast3 3) 1 1 = 2"
    unfolding advect_i0_def advect_i1_def advect_j0_def advect_j1_def v
    by (simp_all add: clip_def)
  from advect_reads_in_bounds [OF h, where b = 0 and d = 0 and Vx = 2 and Vy = 3 and dt = 1]
  have "\<not> isl (advect 3 0 0 1 2 3 1 3 ex_fast3)" by blast
  then show ?thesis using h v w by (simp add: ex_fast3_def)
qed

section \<open>advect: zero velocity\<close>

lemma clamp_coord_index:
  "i < N \<Longrightarrow> clamp_coord N N (real i) = (if i = 0 then 1 / 2 else real i)"
  by (auto simp add: clamp_coord_def Let_def)

lemma advect_zero_coords:
  assumes "2 \<le> N" "i < N" "cells V i j = 0"
  shows "advect_x N N dt V i j = (if i = 0 then 1 / 2 else real i)"
    and "advect_i0 N N dt V i j = int i"
    and "advect_i1 N N dt V i j = (if i + 1 < N then int i + 1 else int i)"
proof -
  show x: "advect_x N N dt V i j = (if i = 0 then 1 / 2 else real i)"
    using assms by (simp add: advect_x_def Let_def clamp_coord_index)
  show "advect_i0 N N dt V i j = int i"
    using assms by (auto simp add: advect_i0_def x clip_def)
  show "advect_i1 N N dt V i j = (if i + 1 < N then int i + 1 else int i)"
    using assms by (auto simp add: advect_i1_def x clip_def)
qed

lemma advect_zero_coords_y:
  assumes "2 \<le> N" "j < N" "cells V i j = 0"
  shows "advect_y N N dt V i j = (if j = 0 then 1 / 2 else real j)"
    and "advect_j0 N N dt V i j = int j"
    and "advect_j1 N N dt V i j = (if j + 1 < N then int j + 1 else int j)"
proof -
  show y: "advect_y N N dt V i j = (if j = 0 then 1 / 2 else real j)"
    using assms by (simp add: advect_y_def Let_def clamp_coord_index)
  show "advect_j0 N N dt V i j = int j"
    using assms by (auto simp add: advect_j0_def y clip_def)
  show "advect_j1 N N dt V i j = (if j + 1 < N then int j + 1 else int j)"
    using assms by (auto simp add: advect_j1_def y clip_def)
qed

lemma advect_zero_cell:
  assumes "2 \<le> N" "nrows D0 = N" "ncols D0 = N" "i < N" "j < N"
    "cells VX i j = 0" "cells VY i j = 0"
  shows "advect_cell N N dt D0 VX VY i j =
     Inr (if 1 \<le> i \<and> 1 \<le> j then cells D0 i j
          else if 1 \<le> j then (cells D0 0 j + cells D0 1 j) / 2
          else if 1 \<le> i then (cells D0 i 0 + cells D0 i 1) / 2
          else (cells D0 0 0 + cells D0 0 1 + cells D0 1 0 + cells D0 1 1) / 4)"
proof -
  have N: "1 \<le> N" using assms(1) by simp
  note c = advect_zero_coords [OF assms(1,4,6)] advect_zero_coords_y [OF assms(1,5,7)]
  show ?thesis
    unfolding advect_cell_Inr [OF N assms(2,3)] c
    using assms(1,4,5)
    by (cases "i = 0"; cases "j = 0") (simp_all add: nat_add_distrib field_simps)
qed


lemma advect_result:
  assumes "1 \<le> N" "rows s d0 = N" "cols s d0 = N"
  shows "advect N b d d0 Vx Vy dt N s =
           Inr (brk s, snd (set_bnd b (brk s)
             (snd (alloc (advect_array N N dt (heap s d0) (heap s Vx) (heap s Vy)) s))))"
  by (simp add: advect_Inr [OF assms] prod_eq_iff)

lemma rd_advect_result:
  assumes "\<not> corner N i j"
  shows "rd (snd (set_bnd b (brk s) (snd (alloc (advect_array N N dt D0 VX VY) s)))) (brk s) i j =
         cells (advect_array N N dt D0 VX VY) i j"
proof -
  let ?A = "advect_array N N dt D0 VX VY"
  have sh: "rows (snd (alloc ?A s)) (brk s) = N" "cols (snd (alloc ?A s)) (brk s) = N"
    by (simp_all add: rows_alloc cols_alloc advect_array_def)
  show ?thesis
    using rd_set_bnd_frame [OF sh assms] by (simp add: rd_alloc)
qed

lemma advect_zero_velocity_cells:
  assumes "2 \<le> N" "rows s d0 = N" "cols s d0 = N" "i < N" "j < N"
    "rd s Vx i j = 0" "rd s Vy i j = 0"
  shows "cells (advect_array N N dt (heap s d0) (heap s Vx) (heap s Vy)) i j =
     (if 1 \<le> i \<and> 1 \<le> j then rd s d0 i j
      else if 1 \<le> j then (rd s d0 0 j + rd s d0 1 j) / 2
      else if 1 \<le> i then (rd s d0 i 0 + rd s d0 i 1) / 2
      else (rd s d0 0 0 + rd s d0 0 1 + rd s d0 1 0 + rd s d0 1 1) / 4)"
proof -
  have "advect_cell N N dt (heap s d0) (heap s Vx) (heap s Vy) i j =
     Inr (if 1 \<le> i \<and> 1 \<le> j then cells (heap s d0) i j
          else if 1 \<le> j then (cells (heap s d0) 0 j + cells (heap s d0) 1 j) / 2
          else if 1 \<le> i then (cells (heap s d0) i 0 + cells (heap s d0) i 1) / 2
          else (cells (heap s d0) 0 0 + cells (heap s d0) 0 1 +
                cells (heap s d0) 1 0 + cells (heap s d0) 1 1) / 4)"
    using assms by (intro advect_zero_cell) (simp_all add: rows_def cols_def rd_def)
  then show ?thesis
    using assms(4,5) by (simp add: advect_array_def rd_def)
qed

text \<open>
  C3 (as amended). With \<open>N \<ge> 2\<close>, a source buffer \<open>d0\<close> of shape \<open>N \<times> N\<close> and both
  velocity buffers zero in every cell, for every time step \<open>advect\<close> returns a buffer
  that equals \<open>d0\<close> at every cell \<open>(i, j)\<close> with \<open>i \<ge> 1\<close> and \<open>j \<ge> 1\<close> other than
  the corner. In row \<open>0\<close> and in column \<open>0\<close> the lower clamp moves the traced coordinate
  to \<open>0.5\<close>: a cell there that is not a corner gets the mean of \<open>d0\<close> at that cell and
  at its neighbour in row \<open>1\<close>, respectively column \<open>1\<close>.
\<close>

theorem advect_zero_velocity:
  assumes "2 \<le> N" and "rows s d0 = N" and "cols s d0 = N"
    and "\<forall>i j. i < N \<and> j < N \<longrightarrow> rd s Vx i j = 0 \<and> rd s Vy i j = 0"
  shows "\<exists>d' s'. advect N b d d0 Vx Vy dt N s = Inr (d', s')
       \<and> (\<forall>i j. 1 \<le> i \<and> i < N \<and> 1 \<le> j \<and> j < N \<and> \<not> corner N i j \<longrightarrow>
              rd s' d' i j = rd s d0 i j)
       \<and> (\<forall>j. 1 \<le> j \<and> j + 1 < N \<longrightarrow> rd s' d' 0 j = (rd s d0 0 j + rd s d0 1 j) / 2)
       \<and> (\<forall>i. 1 \<le> i \<and> i + 1 < N \<longrightarrow> rd s' d' i 0 = (rd s d0 i 0 + rd s d0 i 1) / 2)"
proof -
  have N: "1 \<le> N" using assms(1) by simp
  let ?A = "advect_array N N dt (heap s d0) (heap s Vx) (heap s Vy)"
  let ?s' = "snd (set_bnd b (brk s) (snd (alloc ?A s)))"
  note R = advect_result [OF N assms(2,3), of b d Vx Vy dt]
  have c: "rd ?s' (brk s) i j =
      (if 1 \<le> i \<and> 1 \<le> j then rd s d0 i j
       else if 1 \<le> j then (rd s d0 0 j + rd s d0 1 j) / 2
       else if 1 \<le> i then (rd s d0 i 0 + rd s d0 i 1) / 2
       else (rd s d0 0 0 + rd s d0 0 1 + rd s d0 1 0 + rd s d0 1 1) / 4)"
    if "i < N" "j < N" "\<not> corner N i j" for i j
    using rd_advect_result [OF that(3)] advect_zero_velocity_cells [OF assms(1-3) that(1,2)]
      assms(4) that(1,2)
    by simp
  have 1: "rd ?s' (brk s) i j = rd s d0 i j"
    if "1 \<le> i \<and> i < N \<and> 1 \<le> j \<and> j < N \<and> \<not> corner N i j" for i j
    using c [of i j] that by simp
  have 2: "rd ?s' (brk s) 0 j = (rd s d0 0 j + rd s d0 1 j) / 2" if "1 \<le> j \<and> j + 1 < N" for j
    using c [of 0 j] that by (auto simp add: corner_def)
  have 3: "rd ?s' (brk s) i 0 = (rd s d0 i 0 + rd s d0 i 1) / 2" if "1 \<le> i \<and> i + 1 < N" for i
    using c [of i 0] that by (auto simp add: corner_def)
  show ?thesis
    using R 1 2 3 by blast
qed

theorem advect_zero_velocity_witness:
  "(2::nat) \<le> 3 \<and> rows ex_advect3 1 = 3 \<and> cols ex_advect3 1 = 3
   \<and> rd ex_advect3 2 1 2 = 0 \<and> rd ex_advect3 3 1 2 = 0 \<and> \<not> corner 3 1 2
   \<and> \<not> isl (advect 3 0 0 1 2 3 1 3 ex_advect3)
   \<and> rd (snd (projr (advect 3 0 0 1 2 3 1 3 ex_advect3)))
         (fst (projr (advect 3 0 0 1 2 3 1 3 ex_advect3))) 1 2 = 6
   \<and> rd (snd (projr (advect 3 0 0 1 2 3 1 3 ex_advect3)))
         (fst (projr (advect 3 0 0 1 2 3 1 3 ex_advect3))) 1 1 = 5
   \<and> rd (snd (projr (advect 3 0 0 1 2 3 1 3 ex_advect3)))
         (fst (projr (advect 3 0 0 1 2 3 1 3 ex_advect3))) 1 0 = 9 / 2"
proof -
  have h: "(2::nat) \<le> 3" "rows ex_advect3 1 = 3" "cols ex_advect3 1 = 3"
    "\<forall>i j. i < 3 \<and> j < 3 \<longrightarrow> rd ex_advect3 2 i j = 0 \<and> rd ex_advect3 3 i j = 0"
    by (simp_all add: ex_advect3_def nth_Cons split: nat.split)
  have k: "\<not> corner 3 1 2" "\<not> corner 3 1 1" by (simp_all add: corner_def)
  from advect_zero_velocity [OF h, where b = 0 and d = 0 and dt = 1] obtain d' s' where
    r: "advect 3 0 0 1 2 3 1 3 ex_advect3 = Inr (d', s')"
    and 1: "\<forall>i j. 1 \<le> i \<and> i < 3 \<and> 1 \<le> j \<and> j < 3 \<and> \<not> corner 3 i j \<longrightarrow>
              rd s' d' i j = rd ex_advect3 1 i j"
    and 2: "\<forall>i. 1 \<le> i \<and> i + 1 < 3 \<longrightarrow> rd s' d' i 0 = (rd ex_advect3 1 i 0 + rd ex_advect3 1 i 1) / 2"
    by blast
  from 1 k have "rd s' d' 1 2 = rd ex_advect3 1 1 2" "rd s' d' 1 1 = rd ex_advect3 1 1 1"
    by simp_all
  moreover from 2 have "rd s' d' 1 0 = (rd ex_advect3 1 1 0 + rd ex_advect3 1 1 1) / 2"
    by simp
  ultimately show ?thesis
    using h(1-3) k r by (simp add: ex_advect3_def)
qed

text \<open>
  Zero velocity on a \<open>3 \<times> 3\<close> grid: the cell \<open>(0, 1)\<close> is not a corner, \<open>d0\<close> holds
  \<open>2\<close> there, and the result holds \<open>(2 + 5) / 2\<close>.
\<close>

theorem advect_zero_velocity_counterexample:
  "rows ex_advect3 1 = 3 \<and> cols ex_advect3 1 = 3
   \<and> list_all (\<lambda>i. list_all (\<lambda>j. rd ex_advect3 2 i j = 0 \<and> rd ex_advect3 3 i j = 0) [0, 1, 2]) [0, 1, 2]
   \<and> \<not> corner 3 0 1
   \<and> rd ex_advect3 1 0 1 = 2
   \<and> rd (snd (projr (advect 3 0 0 1 2 3 1 3 ex_advect3)))
         (fst (projr (advect 3 0 0 1 2 3 1 3 ex_advect3))) 0 1 = 7 / 2
   \<and> rd (snd (projr (advect 3 0 0 1 2 3 1 3 ex_advect3)))
         (fst (projr (advect 3 0 0 1 2 3 1 3 ex_advect3))) 0 1 \<noteq> rd ex_advect3 1 0 1"
proof -
  have h: "(1::nat) \<le> 3" "rows ex_advect3 1 = 3" "cols ex_advect3 1 = 3"
    by (simp_all add: ex_advect3_def)
  have k: "\<not> corner 3 0 1" by (simp add: corner_def)
  have z: "rd ex_advect3 2 0 1 = 0" "rd ex_advect3 3 0 1 = 0"
    by (simp_all add: ex_advect3_def)
  note R = advect_result [OF h, where b = 0 and d = 0 and Vx = 2 and Vy = 3 and dt = 1]
  have "rd (snd (projr (advect 3 0 0 1 2 3 1 3 ex_advect3)))
         (fst (projr (advect 3 0 0 1 2 3 1 3 ex_advect3))) 0 1 =
        cells (advect_array 3 3 1 (heap ex_advect3 1) (heap ex_advect3 2) (heap ex_advect3 3)) 0 1"
    unfolding R sum.sel fst_conv snd_conv by (rule rd_advect_result [OF k])
  also have "\<dots> = (rd ex_advect3 1 0 1 + rd ex_advect3 1 1 1) / 2"
    using advect_zero_velocity_cells [OF _ h(2,3) _ _ z, of 1] by simp
  finally have "rd (snd (projr (advect 3 0 0 1 2 3 1 3 ex_advect3)))
         (fst (projr (advect 3 0 0 1 2 3 1 3 ex_advect3))) 0 1 = 7 / 2"
    by (simp add: ex_advect3_def)
  then show ?thesis
    using h(2,3) k by (simp add: ex_advect3_def)
qed

section \<open>Loops over the interior cells\<close>

lemma fold_invariant:
  assumes "\<And>x s. x \<in> set xs \<Longrightarrow> P s \<Longrightarrow> P (f x s)" and "P s"
  shows "P (fold f xs s)"
  using assms by (induction xs arbitrary: s) simp_all

lemma fold_establish:
  assumes step: "\<And>x s. x \<in> set xs \<Longrightarrow> P s \<Longrightarrow> P (f x s) \<and> Q x (f x s)"
    and keep: "\<And>x y s. x \<in> set xs \<Longrightarrow> P s \<Longrightarrow> Q y s \<Longrightarrow> Q y (f x s)"
    and "P s"
  shows "P (fold f xs s) \<and> (\<forall>y \<in> set xs. Q y (fold f xs s))"
  using assms
proof (induction xs arbitrary: s rule: rev_induct)
  case Nil
  then show ?case by simp
next
  case (snoc x xs)
  have IH: "P (fold f xs s) \<and> (\<forall>y \<in> set xs. Q y (fold f xs s))"
    using snoc.prems by (intro snoc.IH) simp_all
  have x: "x \<in> set (xs @ [x])" by simp
  from snoc.prems(1) [OF x] IH have "P (f x (fold f xs s)) \<and> Q x (f x (fold f xs s))"
    by blast
  moreover have "Q y (f x (fold f xs s))" if "y \<in> set xs" for y
    using snoc.prems(2) [OF x] IH that by blast
  ultimately show ?case by auto
qed

lemma fold_related:
  assumes "\<And>x s t. x \<in> set xs \<Longrightarrow> R s t \<Longrightarrow> R (f x s) (g x t)" and "R s t"
  shows "R (fold f xs s) (fold g xs t)"
  using assms by (induction xs arbitrary: s t) simp_all

lemma interior_range:
  "interior NN i j \<longleftrightarrow> i \<in> set [1..<NN - 1] \<and> j \<in> set [1..<NN - 1]"
  by (auto simp add: interior_def)

lemma for_cells_invariant:
  assumes "\<And>j i s. interior NN i j \<Longrightarrow> P s \<Longrightarrow> P (body j i s)" and "P s"
  shows "P (for_cells NN body s)"
  unfolding for_cells_def
proof (rule fold_invariant [where P = P])
  fix j s assume j: "j \<in> set [1..<NN - 1]" and s: "P s"
  show "P (fold (body j) [1..<NN - 1] s)"
  proof (rule fold_invariant [where P = P])
    fix i t assume "i \<in> set [1..<NN - 1]" and "P t"
    then show "P (body j i t)" using assms(1) j by (simp add: interior_range)
  qed (rule s)
qed (rule assms(2))

lemma for_cells_establish:
  assumes step: "\<And>j i s. interior NN i j \<Longrightarrow> P s \<Longrightarrow> P (body j i s) \<and> Q i j (body j i s)"
    and keep: "\<And>j i a b s. interior NN i j \<Longrightarrow> P s \<Longrightarrow> Q a b s \<Longrightarrow> Q a b (body j i s)"
    and "P s"
  shows "P (for_cells NN body s) \<and> (\<forall>a b. interior NN a b \<longrightarrow> Q a b (for_cells NN body s))"
proof -
  let ?I = "[1..<NN - 1]"
  have inner: "P (fold (body j) ?I s) \<and> (\<forall>i \<in> set ?I. Q i j (fold (body j) ?I s))"
    if "j \<in> set ?I" "P s" for j s
    using that step keep
    by (intro fold_establish [where P = P and Q = "\<lambda>i. Q i j"]) (simp_all add: interior_range)
  have inner_keep: "Q a b (fold (body j) ?I s)" if "j \<in> set ?I" "P s" "Q a b s" for j a b s
  proof -
    have "P (fold (body j) ?I s) \<and> Q a b (fold (body j) ?I s)"
      using that step keep
      by (intro fold_invariant [where P = "\<lambda>s. P s \<and> Q a b s"]) (simp_all add: interior_range)
    then show ?thesis by simp
  qed
  have "P (fold (\<lambda>j. fold (body j) ?I) ?I s) \<and>
        (\<forall>j \<in> set ?I. (\<forall>i \<in> set ?I. Q i j (fold (\<lambda>j. fold (body j) ?I) ?I s)))"
    using inner inner_keep assms(3)
    by (intro fold_establish [where P = P and Q = "\<lambda>j s. \<forall>i \<in> set ?I. Q i j s"]) blast+
  then show ?thesis
    by (simp add: for_cells_def interior_range)
qed

lemma for_cells_related:
  assumes "\<And>j i s t. interior NN i j \<Longrightarrow> R s t \<Longrightarrow> R (body j i s) (body' j i t)" and "R s t"
  shows "R (for_cells NN body s) (for_cells NN body' t)"
  unfolding for_cells_def
proof (rule fold_related [where R = R])
  fix j s t assume j: "j \<in> set [1..<NN - 1]" and st: "R s t"
  show "R (fold (body j) [1..<NN - 1] s) (fold (body' j) [1..<NN - 1] t)"
  proof (rule fold_related [where R = R])
    fix i s t assume "i \<in> set [1..<NN - 1]" and "R s t"
    then show "R (body j i s) (body' j i t)" using assms(1) j by (simp add: interior_range)
  qed (rule st)
qed (rule assms(2))

lemma fold_cellwise:
  assumes "distinct xs"
    and step: "\<And>x s. x \<in> set xs \<Longrightarrow>
                 rd (f x s) r a b = (if W x then V s else rd s r a b)"
    and stable: "\<And>x y s. x \<in> set xs \<Longrightarrow> y \<in> set xs \<Longrightarrow> x \<noteq> y \<Longrightarrow> W y \<Longrightarrow> V (f x s) = V s"
  shows "rd (fold f xs s) r a b = (if \<exists>x \<in> set xs. W x then V s else rd s r a b)"
  using assms
proof (induction xs arbitrary: s)
  case Nil
  show ?case by simp
next
  case (Cons x xs)
  have IH: "rd (fold f xs (f x s)) r a b =
      (if \<exists>y \<in> set xs. W y then V (f x s) else rd (f x s) r a b)"
  proof (rule Cons.IH)
    show "distinct xs" using Cons.prems(1) by simp
    show "rd (f y t) r a b = (if W y then V t else rd t r a b)" if "y \<in> set xs" for y t
      using that Cons.prems(2) [of y t] by simp
    show "V (f y t) = V t" if "y \<in> set xs" "z \<in> set xs" "y \<noteq> z" "W z" for y z t
      using that Cons.prems(3) [of y z t] by simp
  qed
  have st: "V (f x s) = V s" if "y \<in> set xs" "W y" for y
    using Cons.prems(1) that by (intro Cons.prems(3) [of x y]) auto
  have sx: "rd (f x s) r a b = (if W x then V s else rd s r a b)"
    using Cons.prems(2) [of x s] by simp
  show ?case
    using IH st sx by auto
qed

lemma for_cells_cellwise:
  assumes step: "\<And>j i s. interior NN i j \<Longrightarrow>
        rd (body j i s) r a b = (if a = i \<and> b = j \<and> w then V s else rd s r a b)"
    and stable: "\<And>j i s. interior NN i j \<Longrightarrow> \<not> (a = i \<and> b = j) \<Longrightarrow> V (body j i s) = V s"
  shows "rd (for_cells NN body s) r a b = (if interior NN a b \<and> w then V s else rd s r a b)"
proof -
  let ?I = "[1..<NN - 1]"
  have inner: "rd (fold (body j) ?I s) r a b =
      (if \<exists>i \<in> set ?I. a = i \<and> b = j \<and> w then V s else rd s r a b)"
    if "j \<in> set ?I" for j s
    using that step stable
    by (intro fold_cellwise [where W = "\<lambda>i. a = i \<and> b = j \<and> w"])
       (auto simp add: interior_range)
  have inner_stable: "V (fold (body j) ?I s) = V s" if "j \<in> set ?I" "b \<noteq> j" for j s
    using that stable
    by (intro fold_invariant [where P = "\<lambda>t. V t = V s"]) (auto simp add: interior_range)
  have "rd (fold (\<lambda>j. fold (body j) ?I) ?I s) r a b =
      (if \<exists>j \<in> set ?I. \<exists>i \<in> set ?I. a = i \<and> b = j \<and> w then V s else rd s r a b)"
    using inner inner_stable
    by (intro fold_cellwise [where W = "\<lambda>j. \<exists>i \<in> set ?I. a = i \<and> b = j \<and> w"]) auto
  then show ?thesis
    by (auto simp add: for_cells_def interior_range)
qed

lemma rows_for_cells:
  assumes "\<And>j i s. rows (body j i s) r = rows s r"
  shows "rows (for_cells NN body s) r = rows s r"
  using assms by (intro for_cells_invariant [where P = "\<lambda>t. rows t r = rows s r"]) simp_all

lemma cols_for_cells:
  assumes "\<And>j i s. cols (body j i s) r = cols s r"
  shows "cols (for_cells NN body s) r = cols s r"
  using assms by (intro for_cells_invariant [where P = "\<lambda>t. cols t r = cols s r"]) simp_all

lemma brk_for_cells:
  assumes "\<And>j i s. brk (body j i s) = brk s"
  shows "brk (for_cells NN body s) = brk s"
  using assms by (intro for_cells_invariant [where P = "\<lambda>t. brk t = brk s"]) simp_all

lemma heap_for_cells:
  assumes "\<And>j i s. heap (body j i s) r = heap s r"
  shows "heap (for_cells NN body s) r = heap s r"
  using assms by (intro for_cells_invariant [where P = "\<lambda>t. heap t r = heap s r"]) simp_all

lemma project_div_cell_simps [simp]:
  "rows (project_div_cell vx vy p dv NN j i s) r = rows s r"
  "cols (project_div_cell vx vy p dv NN j i s) r = cols s r"
  "brk (project_div_cell vx vy p dv NN j i s) = brk s"
  "r \<noteq> p \<Longrightarrow> r \<noteq> dv \<Longrightarrow> heap (project_div_cell vx vy p dv NN j i s) r = heap s r"
  by (simp_all add: project_div_cell_def Let_def)

lemma project_vel_cell_simps [simp]:
  "rows (project_vel_cell vx vy p NN j i s) r = rows s r"
  "cols (project_vel_cell vx vy p NN j i s) r = cols s r"
  "brk (project_vel_cell vx vy p NN j i s) = brk s"
  "r \<noteq> vx \<Longrightarrow> r \<noteq> vy \<Longrightarrow> heap (project_vel_cell vx vy p NN j i s) r = heap s r"
  by (simp_all add: project_vel_cell_def Let_def)

lemma rd_project_div_cell:
  "rd (project_div_cell vx vy p dv NN j i s) r a b =
     (if a = i \<and> b = j \<and> r = p then 0
      else if a = i \<and> b = j \<and> r = dv
      then - 0.5 * (rd s vx (i + 1) j - rd s vx (i - 1) j +
                    rd s vy i (j + 1) - rd s vy i (j - 1)) / real NN
      else rd s r a b)"
  by (simp add: project_div_cell_def Let_def)

lemma rd_project_vel_cell:
  assumes "vx \<noteq> vy" "p \<noteq> vx" "p \<noteq> vy"
  shows "rd (project_vel_cell vx vy p NN j i s) r a b =
     (if a = i \<and> b = j \<and> (r = vx \<or> r = vy)
      then rd s r i j - 0.5 * (rd s p (i + 1) j - rd s p (i - 1) j +
                              rd s p i (j + 1) - rd s p i (j - 1)) * real NN
      else rd s r a b)"
  using assms by (auto simp add: project_vel_cell_def Let_def)

text \<open>What the two loop nests of \<open>project\<close> leave in each cell, for buffers that do not overlap.\<close>

lemma rd_project_div_loop:
  assumes "vx \<noteq> p" "vx \<noteq> dv" "vy \<noteq> p" "vy \<noteq> dv"
  shows "rd (for_cells NN (project_div_cell vx vy p dv NN) s) r a b =
     (if interior NN a b \<and> r = p then 0
      else if interior NN a b \<and> r = dv
      then - 0.5 * (rd s vx (a + 1) b - rd s vx (a - 1) b +
                    rd s vy a (b + 1) - rd s vy a (b - 1)) / real NN
      else rd s r a b)"
proof -
  let ?V = "\<lambda>t. if r = p then 0
      else - 0.5 * (rd t vx (a + 1) b - rd t vx (a - 1) b +
                    rd t vy a (b + 1) - rd t vy a (b - 1)) / real NN"
  have "rd (for_cells NN (project_div_cell vx vy p dv NN) s) r a b =
      (if interior NN a b \<and> (r = p \<or> r = dv) then ?V s else rd s r a b)"
  proof (rule for_cells_cellwise [where V = ?V])
    fix j i t
    show "rd (project_div_cell vx vy p dv NN j i t) r a b =
        (if a = i \<and> b = j \<and> (r = p \<or> r = dv) then ?V t else rd t r a b)"
      by (auto simp add: rd_project_div_cell)
    show "?V (project_div_cell vx vy p dv NN j i t) = ?V t"
      using assms by (simp add: rd_project_div_cell)
  qed
  then show ?thesis by auto
qed

lemma rd_project_vel_loop:
  assumes "vx \<noteq> vy" "p \<noteq> vx" "p \<noteq> vy"
  shows "rd (for_cells NN (project_vel_cell vx vy p NN) s) r a b =
     (if interior NN a b \<and> (r = vx \<or> r = vy)
      then rd s r a b - 0.5 * (rd s p (a + 1) b - rd s p (a - 1) b +
                              rd s p a (b + 1) - rd s p a (b - 1)) * real NN
      else rd s r a b)"
proof (rule for_cells_cellwise)
  fix j i t
  show "rd (project_vel_cell vx vy p NN j i t) r a b =
      (if a = i \<and> b = j \<and> (r = vx \<or> r = vy)
       then rd t r a b - 0.5 * (rd t p (a + 1) b - rd t p (a - 1) b +
                               rd t p a (b + 1) - rd t p a (b - 1)) * real NN
       else rd t r a b)"
    using assms by (auto simp add: rd_project_vel_cell)
  show "rd (project_vel_cell vx vy p NN j i t) r a b -
          0.5 * (rd (project_vel_cell vx vy p NN j i t) p (a + 1) b -
                 rd (project_vel_cell vx vy p NN j i t) p (a - 1) b +
                 rd (project_vel_cell vx vy p NN j i t) p a (b + 1) -
                 rd (project_vel_cell vx vy p NN j i t) p a (b - 1)) * real NN =
        rd t r a b - 0.5 * (rd t p (a + 1) b - rd t p (a - 1) b +
                            rd t p a (b + 1) - rd t p a (b - 1)) * real NN"
    if "\<not> (a = i \<and> b = j)"
    using assms that by (auto simp add: rd_project_vel_cell)
qed

section \<open>project: stages\<close>

lemma zero_on_iff: "zero_on N s r \<longleftrightarrow> (\<forall>i j. i < N \<and> j < N \<longrightarrow> rd s r i j = 0)"
  by (auto simp add: zero_on_def list_all_iff)

lemma project_eq:
  "project iter vx vy p dv NN s = Inr ((vx, vy, p, dv), project_store iter vx vy p dv NN s)"
proof -
  have "lin_solve iter 0 p dv 1 6 t = Inr (p, (sweep 0 p dv 1 (1 / 6) ^^ iter) t)" for t
    by (rule lin_solve_sweeps) simp
  then show ?thesis
    by (simp add: project_def project_store_def project_solved_def Let_def split_beta)
qed

lemma rd_project_vel_cell_other:
  "\<not> (a = i \<and> b = j) \<Longrightarrow> rd (project_vel_cell vx vy p NN j i s) r a b = rd s r a b"
  by (auto simp add: project_vel_cell_def Let_def)

lemma for_cells_frame:
  assumes "\<And>j i t. \<not> (a = i \<and> b = j) \<Longrightarrow> rd (body j i t) r a b = rd t r a b"
    and "\<not> interior NN a b"
  shows "rd (for_cells NN body s) r a b = rd s r a b"
proof (rule for_cells_invariant [where P = "\<lambda>t. rd t r a b = rd s r a b"])
  fix j i t assume ij: "interior NN i j" and t: "rd t r a b = rd s r a b"
  from ij assms(2) have "\<not> (a = i \<and> b = j)" by auto
  then show "rd (body j i t) r a b = rd s r a b"
    using assms(1) t by simp
qed simp

lemma rd_project_div_loop_frame:
  "\<not> interior NN a b \<Longrightarrow> rd (for_cells NN (project_div_cell vx vy p dv NN) s) r a b = rd s r a b"
  by (rule for_cells_frame) (auto simp add: rd_project_div_cell)

lemma rd_project_vel_loop_frame:
  "\<not> interior NN a b \<Longrightarrow> rd (for_cells NN (project_vel_cell vx vy p NN) s) r a b = rd s r a b"
  by (rule for_cells_frame) (auto simp add: rd_project_vel_cell_other)

lemma shape_project_div_loop [simp]:
  "rows (for_cells NN (project_div_cell vx vy p dv NN) s) r = rows s r"
  "cols (for_cells NN (project_div_cell vx vy p dv NN) s) r = cols s r"
  "brk (for_cells NN (project_div_cell vx vy p dv NN) s) = brk s"
  by (simp_all add: rows_for_cells cols_for_cells brk_for_cells)

lemma shape_project_vel_loop [simp]:
  "rows (for_cells NN (project_vel_cell vx vy p NN) s) r = rows s r"
  "cols (for_cells NN (project_vel_cell vx vy p NN) s) r = cols s r"
  "brk (for_cells NN (project_vel_cell vx vy p NN) s) = brk s"
  by (simp_all add: rows_for_cells cols_for_cells brk_for_cells)

lemma heap_project_div_loop [simp]:
  "r \<noteq> p \<Longrightarrow> r \<noteq> dv \<Longrightarrow> heap (for_cells NN (project_div_cell vx vy p dv NN) s) r = heap s r"
  by (simp add: heap_for_cells)

lemma heap_project_vel_loop [simp]:
  "r \<noteq> vx \<Longrightarrow> r \<noteq> vy \<Longrightarrow> heap (for_cells NN (project_vel_cell vx vy p NN) s) r = heap s r"
  by (simp add: heap_for_cells)

lemma shape_project_solved [simp]:
  "rows (project_solved iter vx vy p dv NN s) r = rows s r"
  "cols (project_solved iter vx vy p dv NN s) r = cols s r"
  "brk (project_solved iter vx vy p dv NN s) = brk s"
  by (simp_all add: project_solved_def)

lemma shape_project_store [simp]:
  "rows (project_store iter vx vy p dv NN s) r = rows s r"
  "cols (project_store iter vx vy p dv NN s) r = cols s r"
  "brk (project_store iter vx vy p dv NN s) = brk s"
  by (simp_all add: project_store_def)

lemma heap_project_solved [simp]:
  "r \<noteq> p \<Longrightarrow> r \<noteq> dv \<Longrightarrow> heap (project_solved iter vx vy p dv NN s) r = heap s r"
  by (simp add: project_solved_def)

lemma heap_project_store [simp]:
  "r \<noteq> p \<Longrightarrow> r \<noteq> dv \<Longrightarrow> r \<noteq> vx \<Longrightarrow> r \<noteq> vy \<Longrightarrow>
     heap (project_store iter vx vy p dv NN s) r = heap s r"
  by (simp add: project_store_def)

section \<open>project: cells that are never written\<close>

lemma rd_set_bnd_edge:
  assumes "rows s x = N" "cols s x = N" "\<not> corner N i j"
  shows "rd (snd (set_bnd b x s)) r i j = rd s r i j"
proof (cases "r = x")
  case True
  then show ?thesis using rd_set_bnd_frame [OF assms] by simp
next
  case False
  then show ?thesis by simp
qed

lemma rd_relax_edge:
  assumes "rows s x = N" "cols s x = N" "\<not> interior N i j"
  shows "rd (relax x x0 a cR s) r i j = rd s r i j"
  using assms by (auto simp add: rd_relax interior_def)

lemma rd_sweep_edge:
  assumes "rows s x = N" "cols s x = N" "\<not> interior N i j" "\<not> corner N i j"
  shows "rd (sweep b x x0 a cR s) r i j = rd s r i j"
proof -
  have "rd (sweep b x x0 a cR s) r i j = rd (relax x x0 a cR s) r i j"
    unfolding sweep_def using assms by (intro rd_set_bnd_edge [where N = N]) simp_all
  then show ?thesis using assms by (simp add: rd_relax_edge [where N = N])
qed

lemma rd_sweeps_edge:
  assumes "rows s x = N" "cols s x = N" "\<not> interior N i j" "\<not> corner N i j"
  shows "rd ((sweep b x x0 a cR ^^ k) s) r i j = rd s r i j"
proof (induction k)
  case 0
  show ?case by simp
next
  case (Suc k)
  have "rd (sweep b x x0 a cR ((sweep b x x0 a cR ^^ k) s)) r i j =
        rd ((sweep b x x0 a cR ^^ k) s) r i j"
    using assms by (intro rd_sweep_edge [where N = N]) simp_all
  then show ?case using Suc.IH by simp
qed

lemma rd_project_solved_edge:
  assumes "square N s p" "square N s dv" "\<not> interior N i j" "\<not> corner N i j"
  shows "rd (project_solved iter vx vy p dv N s) r i j = rd s r i j"
proof -
  let ?s1 = "for_cells N (project_div_cell vx vy p dv N) s"
  let ?s2 = "snd (set_bnd 0 dv ?s1)"
  let ?s3 = "snd (set_bnd 0 p ?s2)"
  have "rd ((sweep 0 p dv 1 (1 / 6) ^^ iter) ?s3) r i j = rd ?s3 r i j"
    using assms by (intro rd_sweeps_edge [where N = N]) (simp_all add: square_def)
  also have "\<dots> = rd ?s2 r i j"
    using assms by (intro rd_set_bnd_edge [where N = N]) (simp_all add: square_def)
  also have "\<dots> = rd ?s1 r i j"
    using assms by (intro rd_set_bnd_edge [where N = N]) (simp_all add: square_def)
  also have "\<dots> = rd s r i j"
    using assms(3) by (rule rd_project_div_loop_frame)
  finally show ?thesis by (simp add: project_solved_def)
qed

lemma rd_project_store_edge:
  assumes "square N s vx" "square N s vy" "square N s p" "square N s dv"
    "\<not> interior N i j" "\<not> corner N i j"
  shows "rd (project_store iter vx vy p dv N s) r i j = rd s r i j"
proof -
  let ?s4 = "project_solved iter vx vy p dv N s"
  let ?s5 = "for_cells N (project_vel_cell vx vy p N) ?s4"
  let ?s6 = "snd (set_bnd 1 vx ?s5)"
  have "rd (snd (set_bnd 2 vy ?s6)) r i j = rd ?s6 r i j"
    using assms by (intro rd_set_bnd_edge [where N = N]) (simp_all add: square_def)
  also have "\<dots> = rd ?s5 r i j"
    using assms by (intro rd_set_bnd_edge [where N = N]) (simp_all add: square_def)
  also have "\<dots> = rd ?s4 r i j"
    using assms(5) by (rule rd_project_vel_loop_frame)
  also have "\<dots> = rd s r i j"
    using assms(3,4,5,6) by (rule rd_project_solved_edge)
  finally show ?thesis by (simp add: project_store_def)
qed

section \<open>project: stores that differ in the rim of one buffer\<close>

lemma heap_wr:
  "heap (wr r i j v s) r' =
     (if r' = r then (heap s r)\<lparr>cells := (cells (heap s r))(i := (cells (heap s r) i)(j := v))\<rparr>
      else heap s r')"
  by (simp add: wr_def)

lemma same_but_rim_rd:
  "same_but_rim N x s t \<Longrightarrow> r \<noteq> x \<Longrightarrow> rd s r i j = rd t r i j"
  by (simp add: same_but_rim_def rd_def)

lemma same_but_rim_shape:
  "same_but_rim N x s t \<Longrightarrow> rows s r = rows t r"
  "same_but_rim N x s t \<Longrightarrow> cols s r = cols t r"
  by (cases "r = x"; simp add: same_but_rim_def rows_def cols_def)+

lemma same_but_rim_wr_other:
  assumes "same_but_rim N x s t" "r \<noteq> x"
  shows "same_but_rim N x (wr r i j v s) (wr r i j v t)"
  using assms by (simp add: same_but_rim_def heap_wr)

lemma same_but_rim_wr_same:
  assumes "same_but_rim N x s t"
  shows "same_but_rim N x (wr x i j v s) (wr x i j v t)"
  using assms by (simp add: same_but_rim_def heap_wr)

lemma same_but_rim_div_cell:
  assumes "same_but_rim N dv s t" "vx \<noteq> dv" "vy \<noteq> dv" "p \<noteq> dv"
  shows "same_but_rim N dv (project_div_cell vx vy p dv NN j i s) (project_div_cell vx vy p dv NN j i t)"
proof -
  have "rd s vx a b = rd t vx a b" "rd s vy a b = rd t vy a b" for a b
    using assms by (simp_all add: same_but_rim_rd [of N dv s t])
  then show ?thesis
    using assms
    by (simp add: project_div_cell_def Let_def same_but_rim_wr_other same_but_rim_wr_same)
qed

lemma same_but_rim_wr_val:
  assumes "same_but_rim N x s t" "r \<noteq> x" "v = v'"
  shows "same_but_rim N x (wr r i j v s) (wr r i j v' t)"
  using assms by (simp add: same_but_rim_wr_other)

lemma same_but_rim_vel_cell:
  assumes "same_but_rim N dv s t" "vx \<noteq> dv" "vy \<noteq> dv" "p \<noteq> dv"
  shows "same_but_rim N dv (project_vel_cell vx vy p NN j i s) (project_vel_cell vx vy p NN j i t)"
proof -
  have 1: "rd s r a b = rd t r a b" if "r \<noteq> dv" for r a b
    using assms(1) that by (rule same_but_rim_rd)
  show ?thesis
    unfolding project_vel_cell_def Let_def
    by (intro same_but_rim_wr_val assms) (simp_all add: 1 assms)
qed

lemma same_but_rim_set_bnd_other:
  assumes "same_but_rim N x s t" "r \<noteq> x"
  shows "same_but_rim N x (snd (set_bnd b r s)) (snd (set_bnd b r t))"
proof -
  have 1: "rows s r = rows t r" "cols s r = cols t r"
    using assms(1) by (rule same_but_rim_shape)+
  have 2: "rd s r a c = rd t r a c" for a c
    using assms by (rule same_but_rim_rd)
  show ?thesis
    using assms by (simp add: set_bnd_def Let_def 1 2 same_but_rim_wr_other)
qed

lemma same_but_rim_set_bnd_same:
  assumes "same_but_rim N x s t" "rows s x = N" "cols s x = N"
  shows "same_but_rim N x (snd (set_bnd b x s)) (snd (set_bnd b x t))"
proof -
  have t: "rows t x = N" "cols t x = N"
    using assms by (simp_all add: same_but_rim_def)
  have "rd (snd (set_bnd b x s)) x i j = rd (snd (set_bnd b x t)) x i j" if "interior N i j" for i j
  proof -
    have "\<not> corner N i j" using that by (auto simp add: interior_def corner_def)
    then show ?thesis
      using rd_set_bnd_frame [OF assms(2,3)] rd_set_bnd_frame [OF t] assms(1) that
      by (simp add: same_but_rim_def)
  qed
  then show ?thesis
    using assms(1) by (simp add: same_but_rim_def)
qed

lemma same_but_rim_relax:
  assumes "same_but_rim N x0 s t" "x \<noteq> x0" "rows s x = N" "cols s x = N"
  shows "same_but_rim N x0 (relax x x0 a cR s) (relax x x0 a cR t)"
proof -
  have h: "heap s x = heap t x" using assms by (simp add: same_but_rim_def)
  have 1: "rd s x i j = rd t x i j" for i j
    using assms(1,2) by (rule same_but_rim_rd)
  have 2: "rd s x0 i j = rd t x0 i j" if "interior N i j" for i j
    using assms(1) that by (simp add: same_but_rim_def)
  have sh: "rows t x = N" "cols t x = N"
    using assms same_but_rim_shape [OF assms(1), of x] by simp_all
  have hx: "heap (relax x x0 a cR s) x = heap (relax x x0 a cR t) x"
    using 2 assms(3,4) sh
    by (auto simp add: relax_def assign_interior_def h 1 fun_eq_iff interior_def)
  have ho: "heap (relax x x0 a cR s) r = heap (relax x x0 a cR t) r" if "r \<noteq> x0" for r
  proof (cases "r = x")
    case True
    then show ?thesis using hx by simp
  next
    case False
    then show ?thesis using that assms(1) by (simp add: same_but_rim_def)
  qed
  have "rd (relax x x0 a cR s) x0 i j = rd (relax x x0 a cR t) x0 i j" if "interior N i j" for i j
    using assms(2) 2 [OF that] by (simp add: rd_def)
  then show ?thesis
    using assms(1,2) ho unfolding same_but_rim_def by (simp add: rows_def cols_def)
qed

lemma same_but_rim_sweep:
  assumes "same_but_rim N x0 s t" "x \<noteq> x0" "rows s x = N" "cols s x = N"
  shows "same_but_rim N x0 (sweep b x x0 a cR s) (sweep b x x0 a cR t)"
  unfolding sweep_def
  by (rule same_but_rim_set_bnd_other [OF same_but_rim_relax [OF assms] assms(2)])

lemma same_but_rim_sweeps:
  assumes "same_but_rim N x0 s t" "x \<noteq> x0" "rows s x = N" "cols s x = N"
  shows "same_but_rim N x0 ((sweep b x x0 a cR ^^ k) s) ((sweep b x x0 a cR ^^ k) t)"
proof (induction k)
  case 0
  show ?case using assms(1) by simp
next
  case (Suc k)
  have "same_but_rim N x0 (sweep b x x0 a cR ((sweep b x x0 a cR ^^ k) s))
                          (sweep b x x0 a cR ((sweep b x x0 a cR ^^ k) t))"
    using Suc.IH assms(2-4) by (intro same_but_rim_sweep) simp_all
  then show ?case by simp
qed

lemma same_but_rim_project_solved:
  assumes "same_but_rim N dv s t" "vx \<noteq> dv" "vy \<noteq> dv" "p \<noteq> dv"
    "square N s p" "square N s dv"
  shows "same_but_rim N dv (project_solved iter vx vy p dv N s) (project_solved iter vx vy p dv N t)"
proof -
  let ?l = "\<lambda>u. for_cells N (project_div_cell vx vy p dv N) u"
  have 1: "same_but_rim N dv (?l s) (?l t)"
    using assms(1-4)
    by (intro for_cells_related [where R = "same_but_rim N dv"] same_but_rim_div_cell)
  have 2: "same_but_rim N dv (snd (set_bnd 0 dv (?l s))) (snd (set_bnd 0 dv (?l t)))"
    using 1 assms(6) by (intro same_but_rim_set_bnd_same) (simp_all add: square_def)
  have 3: "same_but_rim N dv (snd (set_bnd 0 p (snd (set_bnd 0 dv (?l s)))))
                             (snd (set_bnd 0 p (snd (set_bnd 0 dv (?l t)))))"
    by (rule same_but_rim_set_bnd_other [OF 2 assms(4)])
  show ?thesis
    unfolding project_solved_def
    using 3 assms(4,5) by (intro same_but_rim_sweeps) (simp_all add: square_def)
qed

lemma same_but_rim_project_store:
  assumes "same_but_rim N dv s t" "vx \<noteq> dv" "vy \<noteq> dv" "p \<noteq> dv"
    "square N s p" "square N s dv"
  shows "same_but_rim N dv (project_store iter vx vy p dv N s) (project_store iter vx vy p dv N t)"
proof -
  let ?a = "project_solved iter vx vy p dv N s" and ?b = "project_solved iter vx vy p dv N t"
  let ?l = "\<lambda>u. for_cells N (project_vel_cell vx vy p N) u"
  have 1: "same_but_rim N dv ?a ?b"
    using assms by (rule same_but_rim_project_solved)
  have 2: "same_but_rim N dv (?l ?a) (?l ?b)"
    using 1 assms(2-4)
    by (intro for_cells_related [where R = "same_but_rim N dv"] same_but_rim_vel_cell)
  show ?thesis
    unfolding project_store_def
    by (rule same_but_rim_set_bnd_other [OF same_but_rim_set_bnd_other [OF 2 assms(2)] assms(3)])
qed

section \<open>project: the velocity update\<close>

lemma rd_set_bnd:
  assumes "3 \<le> N" "rows s x = N" "cols s x = N"
  shows "rd (snd (set_bnd b x s)) r i j =
     (if r = x \<and> i = 0 \<and> j = 0 then (rd s x 1 0 + rd s x 0 1) / 2
      else if r = x \<and> i = 0 \<and> j = N - 1 then (rd s x 1 (N - 1) + rd s x 0 (N - 2)) / 2
      else if r = x \<and> i = N - 1 \<and> j = 0 then (rd s x (N - 2) 0 + rd s x (N - 1) 1) / 2
      else if r = x \<and> i = N - 1 \<and> j = N - 1
      then (rd s x (N - 2) (N - 1) + rd s x (N - 1) (N - 2)) / 2
      else rd s r i j)"
  using assms by (auto simp add: set_bnd_def Let_def)

lemma rd_project_store_velocity:
  assumes "vx \<noteq> vy" "p \<noteq> vx" "p \<noteq> vy" "dv \<noteq> vx" "dv \<noteq> vy"
    "square N s vx" "square N s vy" "interior N i j" "r = vx \<or> r = vy"
  shows "rd (project_store iter vx vy p dv N s) r i j =
     rd s r i j -
       0.5 * (rd (project_solved iter vx vy p dv N s) p (i + 1) j -
              rd (project_solved iter vx vy p dv N s) p (i - 1) j +
              rd (project_solved iter vx vy p dv N s) p i (j + 1) -
              rd (project_solved iter vx vy p dv N s) p i (j - 1)) * real N"
proof -
  let ?P = "project_solved iter vx vy p dv N s"
  let ?s5 = "for_cells N (project_vel_cell vx vy p N) ?P"
  let ?s6 = "snd (set_bnd 1 vx ?s5)"
  have nc: "\<not> corner N i j" using assms(8) by (auto simp add: interior_def corner_def)
  have "rd (snd (set_bnd 2 vy ?s6)) r i j = rd ?s6 r i j"
    using assms(7) nc by (intro rd_set_bnd_edge [where N = N]) (simp_all add: square_def)
  also have "\<dots> = rd ?s5 r i j"
    using assms(6) nc by (intro rd_set_bnd_edge [where N = N]) (simp_all add: square_def)
  also have "\<dots> = rd ?P r i j -
       0.5 * (rd ?P p (i + 1) j - rd ?P p (i - 1) j + rd ?P p i (j + 1) - rd ?P p i (j - 1)) * real N"
    using assms(8,9) by (simp add: rd_project_vel_loop [OF assms(1-3)])
  also have "rd ?P r i j = rd s r i j"
    using assms(2-5,9) by (auto simp add: rd_def)
  finally show ?thesis by (simp add: project_store_def)
qed

lemma upt_3: "[1..<3 - 1] = [1]" by (simp add: upt_rec)

lemma interior_3: "interior 3 i j \<longleftrightarrow> i = 1 \<and> j = 1"
  by (auto simp add: interior_def)

lemma stale_p3_pressure:
  "rd (project_solved 1 0 1 2 3 3 ex_stale_p3) 2 1 2 = 1"
  "rd (project_solved 1 0 1 2 3 3 ex_stale_p3) 2 1 0 = 0"
  "rd (project_solved 1 0 1 2 3 3 ex_stale_p3) 2 0 1 = 0"
  "rd (project_solved 1 0 1 2 3 3 ex_stale_p3) 2 2 1 = 0"
  by (simp_all add: project_solved_def sweep_def rd_set_bnd [where N = 3] rd_relax
      rd_project_div_loop interior_3 ex_stale_p3_def)

lemma stale_p3_velocity:
  "rd (project_store 1 0 1 2 3 3 ex_stale_p3) 0 1 1 = - 3 / 2"
proof -
  have i: "interior 3 1 1" by (simp add: interior_3)
  have sq: "square 3 ex_stale_p3 0" "square 3 ex_stale_p3 1"
    by (simp_all add: square_def ex_stale_p3_def)
  have z: "rd ex_stale_p3 0 1 1 = 0" by (simp add: ex_stale_p3_def)
  have v: "rd (project_store 1 0 1 2 3 3 ex_stale_p3) 0 1 1 =
      rd ex_stale_p3 0 1 1 -
        0.5 * (rd (project_solved 1 0 1 2 3 3 ex_stale_p3) 2 2 1 -
               rd (project_solved 1 0 1 2 3 3 ex_stale_p3) 2 0 1 +
               rd (project_solved 1 0 1 2 3 3 ex_stale_p3) 2 1 2 -
               rd (project_solved 1 0 1 2 3 3 ex_stale_p3) 2 1 0) * real 3"
    using rd_project_store_velocity [OF _ _ _ _ _ sq i, where p = 2 and dv = 3 and r = 0 and iter = 1]
    by (simp add: numeral_2_eq_2)
  show ?thesis
    unfolding v stale_p3_pressure z by simp
qed

section \<open>project: zero fields\<close>

lemma zero_rim_iff:
  "zero_rim N s r \<longleftrightarrow>
     (\<forall>i j. i < N \<and> j < N \<and> \<not> interior N i j \<and> (N = 2 \<or> \<not> corner N i j) \<longrightarrow> rd s r i j = 0)"
  by (auto simp add: zero_rim_def list_all_iff Ball_def)

lemma set_bnd_zero:
  assumes "2 \<le> N" "rows s x = N" "cols s x = N"
    and "\<And>i j. i < N \<Longrightarrow> j < N \<Longrightarrow> N = 2 \<or> \<not> corner N i j \<Longrightarrow> rd s x i j = 0"
  shows "zero_on N (snd (set_bnd b x s)) x"
proof (cases "N = 2")
  case True
  then have "rd s x i j = 0" if "i < 2" "j < 2" for i j
    using assms(4) that by simp
  then have "rd s x 0 0 = 0" "rd s x 0 1 = 0" "rd s x 1 0 = 0" "rd s x 1 1 = 0"
    by simp_all
  then show ?thesis
    using assms(2,3) True
    by (auto simp add: zero_on_iff set_bnd_def Let_def less_2_cases_iff)
next
  case False
  then have N: "3 \<le> N" using assms(1) by simp
  have e: "rd s x 1 0 = 0" "rd s x 0 1 = 0" "rd s x 1 (N - 1) = 0" "rd s x 0 (N - 2) = 0"
    "rd s x (N - 2) 0 = 0" "rd s x (N - 1) 1 = 0" "rd s x (N - 2) (N - 1) = 0"
    "rd s x (N - 1) (N - 2) = 0"
    using N by (auto intro!: assms(4) simp add: corner_def)
  show ?thesis
    unfolding zero_on_iff
  proof (intro allI impI)
    fix i j assume ij: "i < N \<and> j < N"
    show "rd (snd (set_bnd b x s)) x i j = 0"
    proof (cases "corner N i j")
      case True
      then show ?thesis
        using e by (auto simp add: rd_set_bnd [OF N assms(2,3)] corner_def)
    next
      case False
      then show ?thesis
        using rd_set_bnd_frame [OF assms(2,3) False] assms(4) ij by simp
    qed
  qed
qed

lemma set_bnd_zero_on:
  assumes "2 \<le> N" "rows s x = N" "cols s x = N" "zero_on N s r"
  shows "zero_on N (snd (set_bnd b x s)) r"
proof (cases "r = x")
  case True
  have "zero_on N (snd (set_bnd b x s)) x"
  proof (rule set_bnd_zero [OF assms(1-3)])
    fix i j assume "i < N" "j < N"
    then show "rd s x i j = 0" using assms(4) True by (simp add: zero_on_iff)
  qed
  then show ?thesis using True by simp
next
  case False
  then show ?thesis using assms(4) by (simp add: zero_on_iff)
qed

lemma relax_zero_on:
  assumes "rows s x = N" "cols s x = N" "zero_on N s x" "zero_on N s x0" "zero_on N s r"
  shows "zero_on N (relax x x0 a cR s) r"
  using assms by (auto simp add: zero_on_iff rd_relax)

lemma sweep_zero_on:
  assumes "2 \<le> N" "rows s x = N" "cols s x = N" "zero_on N s x" "zero_on N s x0" "zero_on N s r"
  shows "zero_on N (sweep b x x0 a cR s) r"
  unfolding sweep_def
  using assms by (intro set_bnd_zero_on relax_zero_on) simp_all

lemma sweeps_zero_on:
  assumes "2 \<le> N" "rows s x = N" "cols s x = N" "zero_on N s x" "zero_on N s x0"
  shows "zero_on N ((sweep b x x0 a cR ^^ k) s) x \<and> zero_on N ((sweep b x x0 a cR ^^ k) s) x0"
proof (induction k)
  case 0
  show ?case using assms by simp
next
  case (Suc k)
  let ?t = "(sweep b x x0 a cR ^^ k) s"
  have "zero_on N (sweep b x x0 a cR ?t) r" if "zero_on N ?t r" for r
    using assms(1-3) Suc.IH that by (intro sweep_zero_on) simp_all
  then show ?case using Suc.IH by simp
qed

lemma sweeps_zero_on_any:
  assumes "2 \<le> N" "rows s x = N" "cols s x = N" "zero_on N s x" "zero_on N s x0" "zero_on N s r"
  shows "zero_on N ((sweep b x x0 a cR ^^ k) s) r"
proof (induction k)
  case 0
  show ?case using assms by simp
next
  case (Suc k)
  let ?t = "(sweep b x x0 a cR ^^ k) s"
  have "zero_on N ?t x \<and> zero_on N ?t x0"
    using assms(1-5) by (rule sweeps_zero_on)
  then have "zero_on N (sweep b x x0 a cR ?t) r"
    using assms(1-3) Suc.IH by (intro sweep_zero_on) simp_all
  then show ?case by simp
qed

lemma rd_div_cell_zero:
  assumes "zero_on N s vx" "zero_on N s vy" "interior N i j"
  shows "rd (project_div_cell vx vy p dv N j i s) r a b =
     (if a = i \<and> b = j \<and> (r = p \<or> r = dv) then 0 else rd s r a b)"
proof -
  have "i + 1 < N" "i - 1 < N" "j + 1 < N" "j - 1 < N" "i < N" "j < N"
    using assms(3) by (auto simp add: interior_def)
  then have "rd s vx (i + 1) j = 0" "rd s vx (i - 1) j = 0" "rd s vy i (j + 1) = 0"
    "rd s vy i (j - 1) = 0"
    using assms(1,2) by (simp_all add: zero_on_iff)
  then show ?thesis
    by (auto simp add: rd_project_div_cell)
qed

lemma rd_vel_cell_zero:
  assumes "zero_on N s vx" "zero_on N s vy" "zero_on N s p" "interior N i j"
  shows "rd (project_vel_cell vx vy p N j i s) r a b =
     (if a = i \<and> b = j \<and> (r = vx \<or> r = vy) then 0 else rd s r a b)"
proof -
  have "i + 1 < N" "i - 1 < N" "j + 1 < N" "j - 1 < N" "i < N" "j < N"
    using assms(4) by (auto simp add: interior_def)
  then have "rd s p (i + 1) j = 0" "rd s p (i - 1) j = 0" "rd s p i (j + 1) = 0"
    "rd s p i (j - 1) = 0" "rd s vx i j = 0" "rd s vy i j = 0"
    using assms(1-3) by (simp_all add: zero_on_iff)
  moreover have "1 \<le> i" "1 \<le> j"
    using assms(4) by (simp_all add: interior_def)
  ultimately show ?thesis
    by (auto simp add: project_vel_cell_def Let_def)
qed

lemma div_loop_zero:
  assumes "zero_on N s vx" "zero_on N s vy"
  shows "rd s r a b = 0 \<Longrightarrow> rd (for_cells N (project_div_cell vx vy p dv N) s) r a b = 0"
    and "interior N a b \<Longrightarrow> rd (for_cells N (project_div_cell vx vy p dv N) s) p a b = 0"
    and "interior N a b \<Longrightarrow> rd (for_cells N (project_div_cell vx vy p dv N) s) dv a b = 0"
proof -
  let ?P = "\<lambda>t. \<forall>r a b. rd s r a b = 0 \<longrightarrow> rd t r a b = 0"
  let ?Q = "\<lambda>i j t. rd t p i j = 0 \<and> rd t dv i j = 0"
  let ?body = "project_div_cell vx vy p dv N"
  have z: "zero_on N t vx \<and> zero_on N t vy" if "?P t" for t
    using that assms by (simp add: zero_on_iff)
  have "?P (for_cells N ?body s) \<and> (\<forall>a b. interior N a b \<longrightarrow> ?Q a b (for_cells N ?body s))"
  proof (rule for_cells_establish [where P = ?P and Q = ?Q])
    fix j i t assume ij: "interior N i j" and t: "?P t"
    show "?P (?body j i t) \<and> ?Q i j (?body j i t)"
      using z [OF t] ij t by (simp add: rd_div_cell_zero [where N = N])
  next
    fix j i a b t assume ij: "interior N i j" and t: "?P t" and q: "?Q a b t"
    show "?Q a b (?body j i t)"
      using z [OF t] ij q by (simp add: rd_div_cell_zero [where N = N])
  qed simp
  then show "rd s r a b = 0 \<Longrightarrow> rd (for_cells N ?body s) r a b = 0"
    and "interior N a b \<Longrightarrow> rd (for_cells N ?body s) p a b = 0"
    and "interior N a b \<Longrightarrow> rd (for_cells N ?body s) dv a b = 0"
    by blast+
qed

lemma vel_loop_zero:
  assumes "zero_on N s vx" "zero_on N s vy" "zero_on N s p"
  shows "rd s r a b = 0 \<Longrightarrow> rd (for_cells N (project_vel_cell vx vy p N) s) r a b = 0"
proof -
  let ?P = "\<lambda>t. \<forall>r a b. rd s r a b = 0 \<longrightarrow> rd t r a b = 0"
  let ?body = "project_vel_cell vx vy p N"
  have z: "zero_on N t vx \<and> zero_on N t vy \<and> zero_on N t p" if "?P t" for t
    using that assms by (simp add: zero_on_iff)
  have "?P (for_cells N ?body s)"
  proof (rule for_cells_invariant [where P = ?P])
    fix j i t assume ij: "interior N i j" and t: "?P t"
    show "?P (?body j i t)"
      using z [OF t] ij t by (simp add: rd_vel_cell_zero [where N = N])
  qed simp
  then show "rd s r a b = 0 \<Longrightarrow> rd (for_cells N ?body s) r a b = 0"
    by blast
qed

lemma project_solved_zero:
  assumes "2 \<le> N" "square N s p" "square N s dv"
    "zero_on N s vx" "zero_on N s vy" "zero_rim N s p" "zero_rim N s dv"
    "r = vx \<or> r = vy \<or> r = p \<or> r = dv"
  shows "zero_on N (project_solved iter vx vy p dv N s) r"
proof -
  let ?s1 = "for_cells N (project_div_cell vx vy p dv N) s"
  let ?s2 = "snd (set_bnd 0 dv ?s1)"
  let ?s3 = "snd (set_bnd 0 p ?s2)"
  note keep = div_loop_zero(1) [OF assms(4,5), where p = p and dv = dv]
  have v1: "zero_on N ?s1 vx" "zero_on N ?s1 vy"
    using assms(4,5) keep by (simp_all add: zero_on_iff)
  have c1: "rd ?s1 x i j = 0"
    if "x = p \<or> x = dv" "i < N" "j < N" "N = 2 \<or> \<not> corner N i j" for x i j
  proof (cases "interior N i j")
    case True
    then show ?thesis
      using that(1) div_loop_zero(2,3) [OF assms(4,5) True] by auto
  next
    case False
    then have "rd s x i j = 0"
      using that assms(6,7) by (auto simp add: zero_rim_iff)
    then show ?thesis by (rule keep)
  qed
  have sh1: "rows ?s1 dv = N" "cols ?s1 dv = N"
    using assms(3) by (simp_all add: square_def)
  have d2: "zero_on N ?s2 dv"
    using assms(1) sh1 c1 by (intro set_bnd_zero) simp_all
  have v2: "zero_on N ?s2 vx" "zero_on N ?s2 vy"
    using assms(1) sh1 v1 by (simp_all add: set_bnd_zero_on)
  have c2: "rd ?s2 p i j = 0" if "i < N" "j < N" "N = 2 \<or> \<not> corner N i j" for i j
  proof (cases "p = dv")
    case True
    then show ?thesis using d2 that by (simp add: zero_on_iff)
  next
    case False
    then show ?thesis using c1 [of p i j] that by simp
  qed
  have sh2: "rows ?s2 p = N" "cols ?s2 p = N"
    using assms(2) by (simp_all add: square_def)
  have p3: "zero_on N ?s3 p"
    using assms(1) sh2 c2 by (intro set_bnd_zero) simp_all
  have o3: "zero_on N ?s3 dv" "zero_on N ?s3 vx" "zero_on N ?s3 vy"
    using assms(1) sh2 d2 v2 by (simp_all add: set_bnd_zero_on)
  have sh3: "rows ?s3 p = N" "cols ?s3 p = N"
    using assms(2) by (simp_all add: square_def)
  have "zero_on N ?s3 r"
    using assms(8) p3 o3 by auto
  then have "zero_on N ((sweep 0 p dv 1 (1 / 6) ^^ iter) ?s3) r"
    using assms(1) sh3 p3 o3(1) by (intro sweeps_zero_on_any) simp_all
  then show ?thesis
    by (simp add: project_solved_def)
qed

lemma project_store_zero:
  assumes "2 \<le> N" "square N s vx" "square N s vy" "square N s p" "square N s dv"
    "zero_on N s vx" "zero_on N s vy" "zero_rim N s p" "zero_rim N s dv"
    "r = vx \<or> r = vy \<or> r = p \<or> r = dv"
  shows "zero_on N (project_store iter vx vy p dv N s) r"
proof -
  let ?s4 = "project_solved iter vx vy p dv N s"
  let ?s5 = "for_cells N (project_vel_cell vx vy p N) ?s4"
  let ?s6 = "snd (set_bnd 1 vx ?s5)"
  have z4: "zero_on N ?s4 x" if "x = vx \<or> x = vy \<or> x = p \<or> x = dv" for x
    using assms(1,4,5,6-9) that by (rule project_solved_zero)
  have "zero_on N ?s5 r"
    using z4 [OF assms(10)] vel_loop_zero [of N ?s4 vx vy p r] z4
    by (simp add: zero_on_iff)
  then have "zero_on N ?s6 r"
    using assms(2) by (intro set_bnd_zero_on [OF assms(1)]) (simp_all add: square_def)
  then have "zero_on N (snd (set_bnd 2 vy ?s6)) r"
    using assms(3) by (intro set_bnd_zero_on [OF assms(1) _ _ \<open>zero_on N ?s6 r\<close>])
      (simp_all add: square_def)
  then show ?thesis
    by (simp add: project_store_def)
qed

text \<open>
  C4 (as amended). For \<open>N \<ge> 2\<close> and four \<open>N \<times> N\<close> buffers: if \<open>velocX\<close> and \<open>velocY\<close>
  are zero in every cell and \<open>p\<close> and \<open>div\<close> are zero in every edge cell that is not a
  corner (for \<open>N = 2\<close>: in all four cells), whatever their interior cells and, for
  \<open>N \<ge> 3\<close>, their corners hold, then \<open>project\<close> returns the four buffers it was given,
  with \<open>div\<close> and \<open>p\<close> zero in every cell and \<open>velocX\<close> and \<open>velocY\<close> still zero in
  every cell. The buffers may overlap.
\<close>

theorem project_zero_velocity:
  assumes "2 \<le> N"
    and "square N s velocX" and "square N s velocY" and "square N s p" and "square N s dv"
    and "zero_on N s velocX" and "zero_on N s velocY"
    and "zero_rim N s p" and "zero_rim N s dv"
  shows "project iter velocX velocY p dv N s =
           Inr ((velocX, velocY, p, dv), project_store iter velocX velocY p dv N s)
       \<and> zero_on N (project_store iter velocX velocY p dv N s) dv
       \<and> zero_on N (project_store iter velocX velocY p dv N s) p
       \<and> zero_on N (project_store iter velocX velocY p dv N s) velocX
       \<and> zero_on N (project_store iter velocX velocY p dv N s) velocY"
  using project_store_zero [OF assms] by (simp add: project_eq)

lemma upt_small:
  "[0..<2] = [0, 1]" "[0..<3] = [0, 1, 2]" "[0..<4] = [0, 1, 2, 3]"
  by (simp_all add: upt_rec)

lemma square_store_of:
  "square N (store_of As) r \<longleftrightarrow>
     (if r < length As then length (As ! r) = N \<and> (case As ! r of [] \<Rightarrow> 0 | x # _ \<Rightarrow> length x) = N
      else N = 0)"
  by (auto simp add: square_def)

theorem project_zero_velocity_witness:
  "(2::nat) \<le> 3
   \<and> square 3 ex_zero_rim3 0 \<and> square 3 ex_zero_rim3 1
   \<and> square 3 ex_zero_rim3 2 \<and> square 3 ex_zero_rim3 3
   \<and> zero_on 3 ex_zero_rim3 0 \<and> zero_on 3 ex_zero_rim3 1
   \<and> zero_rim 3 ex_zero_rim3 2 \<and> zero_rim 3 ex_zero_rim3 3
   \<and> rd ex_zero_rim3 2 1 1 = 7 \<and> rd ex_zero_rim3 3 0 0 = 3
   \<and> project 2 0 1 2 3 3 ex_zero_rim3 = Inr ((0, 1, 2, 3), project_store 2 0 1 2 3 3 ex_zero_rim3)
   \<and> zero_on 3 (project_store 2 0 1 2 3 3 ex_zero_rim3) 3
   \<and> zero_on 3 (project_store 2 0 1 2 3 3 ex_zero_rim3) 2
   \<and> zero_on 3 (project_store 2 0 1 2 3 3 ex_zero_rim3) 0
   \<and> zero_on 3 (project_store 2 0 1 2 3 3 ex_zero_rim3) 1"
proof -
  have h: "(2::nat) \<le> 3"
    "square 3 ex_zero_rim3 0" "square 3 ex_zero_rim3 1"
    "square 3 ex_zero_rim3 2" "square 3 ex_zero_rim3 3"
    "zero_on 3 ex_zero_rim3 0" "zero_on 3 ex_zero_rim3 1"
    "zero_rim 3 ex_zero_rim3 2" "zero_rim 3 ex_zero_rim3 3"
    by (simp_all add: ex_zero_rim3_def square_store_of zero_on_def zero_rim_def upt_small
        interior_def corner_def)
  have v: "rd ex_zero_rim3 2 1 1 = 7" "rd ex_zero_rim3 3 0 0 = 3"
    by (simp_all add: ex_zero_rim3_def)
  show ?thesis
    using project_zero_velocity [OF h, of 2] h v by simp
qed

lemma rd_project_store_pressure:
  assumes "p \<noteq> vx" "p \<noteq> vy"
  shows "rd (project_store iter vx vy p dv N s) p i j = rd (project_solved iter vx vy p dv N s) p i j"
  using assms by (simp add: project_store_def rd_def)

lemma edge_3: "edge 3 i j \<longleftrightarrow> (i = 1 \<and> (j = 0 \<or> j = 2)) \<or> (j = 1 \<and> (i = 0 \<or> i = 2))"
  by (auto simp add: edge_def interior_def corner_def)

lemma rd_project_store_velocity_3:
  assumes "vx \<noteq> vy" "p \<noteq> vx" "p \<noteq> vy" "dv \<noteq> vx" "dv \<noteq> vy"
    "square 3 s vx" "square 3 s vy" "square 3 s p" "square 3 s dv" "r = vx \<or> r = vy"
  shows "rd (project_store iter vx vy p dv 3 s) r 1 1 =
     rd s r 1 1 - 0.5 * (rd s p 2 1 - rd s p 0 1 + rd s p 1 2 - rd s p 1 0) * 3"
proof -
  have i: "interior 3 1 1" by (simp add: interior_def)
  have e: "rd (project_solved iter vx vy p dv 3 s) p a b = rd s p a b"
    if "\<not> interior 3 a b" "\<not> corner 3 a b" for a b
    using assms(8,9) that by (rule rd_project_solved_edge)
  have "rd (project_solved iter vx vy p dv 3 s) p 2 1 = rd s p 2 1"
    "rd (project_solved iter vx vy p dv 3 s) p 0 1 = rd s p 0 1"
    "rd (project_solved iter vx vy p dv 3 s) p 1 2 = rd s p 1 2"
    "rd (project_solved iter vx vy p dv 3 s) p 1 0 = rd s p 1 0"
    by (rule e; simp add: interior_def corner_def)+
  then show ?thesis
    using rd_project_store_velocity [OF assms(1-7) i assms(10), of iter]
    by (simp add: numeral_2_eq_2)
qed

text \<open>
  Zero velocities on a \<open>3 \<times> 3\<close> grid, with \<open>div\<close> holding \<open>1\<close> everywhere and \<open>p\<close>
  holding \<open>1\<close> in the edge cell \<open>(1, 2)\<close>: after \<open>project\<close> the edge cell \<open>(0, 1)\<close> of
  \<open>div\<close> still holds \<open>1\<close>, the edge cell \<open>(1, 2)\<close> of \<open>p\<close> still holds \<open>1\<close>, and
  \<open>velocX\<close> holds \<open>- 3 / 2\<close> in the interior cell.
\<close>

theorem project_zero_velocity_counterexample:
  "zero_on 3 ex_stale3 0 \<and> zero_on 3 ex_stale3 1
   \<and> project 1 0 1 2 3 3 ex_stale3 = Inr ((0, 1, 2, 3), project_store 1 0 1 2 3 3 ex_stale3)
   \<and> rd (project_store 1 0 1 2 3 3 ex_stale3) 3 0 1 = 1
   \<and> rd (project_store 1 0 1 2 3 3 ex_stale3) 2 1 2 = 1
   \<and> rd (project_store 1 0 1 2 3 3 ex_stale3) 0 1 1 = - 3 / 2
   \<and> \<not> zero_on 3 (project_store 1 0 1 2 3 3 ex_stale3) 3
   \<and> \<not> zero_on 3 (project_store 1 0 1 2 3 3 ex_stale3) 2
   \<and> \<not> zero_on 3 (project_store 1 0 1 2 3 3 ex_stale3) 0"
proof -
  have sq: "square 3 ex_stale3 0" "square 3 ex_stale3 1" "square 3 ex_stale3 2" "square 3 ex_stale3 3"
    by (simp_all add: ex_stale3_def square_store_of)
  have z: "zero_on 3 ex_stale3 0" "zero_on 3 ex_stale3 1"
    by (simp_all add: ex_stale3_def zero_on_def upt_small)
  have e: "rd (project_store 1 0 1 2 3 3 ex_stale3) r i j = rd ex_stale3 r i j"
    if "\<not> interior 3 i j" "\<not> corner 3 i j" for r i j
    using sq that by (rule rd_project_store_edge)
  have "rd (project_store 1 0 1 2 3 3 ex_stale3) 3 0 1 = rd ex_stale3 3 0 1"
    "rd (project_store 1 0 1 2 3 3 ex_stale3) 2 1 2 = rd ex_stale3 2 1 2"
    by (rule e; simp add: interior_def corner_def)+
  then have 1: "rd (project_store 1 0 1 2 3 3 ex_stale3) 3 0 1 = 1"
    "rd (project_store 1 0 1 2 3 3 ex_stale3) 2 1 2 = 1"
    by (simp_all add: ex_stale3_def)
  have 2: "rd (project_store 1 0 1 2 3 3 ex_stale3) 0 1 1 = - 3 / 2"
    using rd_project_store_velocity_3 [OF _ _ _ _ _ sq, where r = 0 and iter = 1]
    by (simp add: ex_stale3_def)
  have 3: "\<not> zero_on 3 (project_store 1 0 1 2 3 3 ex_stale3) r"
    if "rd (project_store 1 0 1 2 3 3 ex_stale3) r i j \<noteq> 0" "i < 3" "j < 3" for r i j
    using that by (auto simp add: zero_on_iff)
  have 4: "\<not> zero_on 3 (project_store 1 0 1 2 3 3 ex_stale3) 3"
    "\<not> zero_on 3 (project_store 1 0 1 2 3 3 ex_stale3) 2"
    "\<not> zero_on 3 (project_store 1 0 1 2 3 3 ex_stale3) 0"
    using 3 [of 3 0 1] 3 [of 2 1 2] 3 [of 0 1 1] 1 2 by simp_all
  show ?thesis
    using z 1 2 4 by (simp add: project_eq)
qed

section \<open>project: stale edge cells\<close>

lemma heap_store_of:
  "heap (store_of As) r = (if r < length As then array_of (As ! r) else array_of [])"
  by (simp add: store_of_def)

lemma same_but_rim_stale_p3: "same_but_rim 3 2 ex_stale_p3 ex_rest3"
proof -
  have "heap ex_stale_p3 r = heap ex_rest3 r" if "r \<noteq> 2" for r
  proof -
    have "r = 0 \<or> r = 1 \<or> r = 3 \<or> 4 \<le> r" using that by arith
    then show ?thesis
      by (elim disjE) (simp_all add: ex_stale_p3_def ex_rest3_def heap_store_of)
  qed
  then show ?thesis
    by (simp add: same_but_rim_def interior_3) (simp add: ex_stale_p3_def ex_rest3_def)
qed

lemma same_but_rim_stale_div3: "same_but_rim 3 3 ex_stale_div3 ex_rest3"
proof -
  have "heap ex_stale_div3 r = heap ex_rest3 r" if "r \<noteq> 3" for r
  proof -
    have "r = 0 \<or> r = 1 \<or> r = 2 \<or> 4 \<le> r" using that by arith
    then show ?thesis
      by (elim disjE) (simp_all add: ex_stale_div3_def ex_rest3_def heap_store_of)
  qed
  then show ?thesis
    by (simp add: same_but_rim_def interior_3) (simp add: ex_stale_div3_def ex_rest3_def)
qed

lemma stale_p3_solved:
  "rd (project_solved 1 0 1 2 3 3 ex_stale_p3) 2 1 1 = 1 / 6"
  "rd (project_solved 1 0 1 2 3 3 ex_rest3) 2 1 1 = 0"
  by (simp_all add: project_solved_def sweep_def rd_set_bnd [where N = 3] rd_relax
      rd_project_div_loop interior_3 ex_stale_p3_def ex_rest3_def)

lemma squares_3:
  "square 3 ex_rest3 0" "square 3 ex_rest3 1" "square 3 ex_rest3 2" "square 3 ex_rest3 3"
  "square 3 ex_stale_p3 0" "square 3 ex_stale_p3 1" "square 3 ex_stale_p3 2" "square 3 ex_stale_p3 3"
  "square 3 ex_stale_div3 0" "square 3 ex_stale_div3 1" "square 3 ex_stale_div3 2"
  "square 3 ex_stale_div3 3"
  by (simp_all add: ex_rest3_def ex_stale_p3_def ex_stale_div3_def square_store_of)

lemma stale_p3_differs:
  "rd (project_store 1 0 1 2 3 3 ex_stale_p3) 2 1 1 \<noteq> rd (project_store 1 0 1 2 3 3 ex_rest3) 2 1 1"
  "rd (project_store 1 0 1 2 3 3 ex_stale_p3) 0 1 1 \<noteq> rd (project_store 1 0 1 2 3 3 ex_rest3) 0 1 1"
proof -
  have "rd (project_store 1 0 1 2 3 3 ex_stale_p3) 2 1 1 = 1 / 6"
    "rd (project_store 1 0 1 2 3 3 ex_rest3) 2 1 1 = 0"
    using stale_p3_solved by (simp_all add: rd_project_store_pressure)
  then show "rd (project_store 1 0 1 2 3 3 ex_stale_p3) 2 1 1 \<noteq>
             rd (project_store 1 0 1 2 3 3 ex_rest3) 2 1 1"
    by simp
  have "rd (project_store 1 0 1 2 3 3 ex_rest3) 0 1 1 = 0"
    using rd_project_store_velocity_3 [OF _ _ _ _ _ squares_3(1-4), where r = 0 and iter = 1]
    by (simp add: ex_rest3_def)
  moreover note stale_p3_velocity
  ultimately show "rd (project_store 1 0 1 2 3 3 ex_stale_p3) 0 1 1 \<noteq>
                   rd (project_store 1 0 1 2 3 3 ex_rest3) 0 1 1"
    by simp
qed

text \<open>
  C10 (as amended). For four \<open>N \<times> N\<close> buffers, \<open>N \<ge> 2\<close>, \<open>project\<close> returns the buffers
  it was given and never writes an edge cell of \<open>p\<close> or \<open>div\<close> that is not a corner:
  after the pressure solve and at the return such a cell holds what the caller left there.
  What \<open>div\<close> held outside its interior cells never reaches the pressure or the
  velocities: when \<open>div\<close> is a buffer of its own, two calls whose stores differ only in
  those cells of \<open>div\<close> leave every other buffer identical. What \<open>p\<close> held on its edge
  cells does reach them: there are two \<open>3 \<times> 3\<close> calls whose stores differ only outside
  the interior of \<open>p\<close> and that return different pressures and different velocities.
\<close>

theorem project_rim_stale:
  assumes "2 \<le> N"
    and "square N s velocX" and "square N s velocY" and "square N s p" and "square N s dv"
  shows "project iter velocX velocY p dv N s =
           Inr ((velocX, velocY, p, dv), project_store iter velocX velocY p dv N s)
       \<and> (\<forall>i j. edge N i j \<longrightarrow>
              rd (project_solved iter velocX velocY p dv N s) p i j = rd s p i j
            \<and> rd (project_solved iter velocX velocY p dv N s) dv i j = rd s dv i j
            \<and> rd (project_store iter velocX velocY p dv N s) p i j = rd s p i j
            \<and> rd (project_store iter velocX velocY p dv N s) dv i j = rd s dv i j)
       \<and> (\<forall>t. velocX \<noteq> dv \<and> velocY \<noteq> dv \<and> p \<noteq> dv \<and> same_but_rim N dv s t \<longrightarrow>
              (\<forall>r. r \<noteq> dv \<longrightarrow>
                 heap (project_store iter velocX velocY p dv N s) r =
                 heap (project_store iter velocX velocY p dv N t) r))
       \<and> (\<exists>u t. square 3 u 0 \<and> square 3 u 1 \<and> square 3 u 2 \<and> square 3 u 3
              \<and> same_but_rim 3 2 u t
              \<and> rd (project_store 1 0 1 2 3 3 u) 2 1 1 \<noteq> rd (project_store 1 0 1 2 3 3 t) 2 1 1
              \<and> rd (project_store 1 0 1 2 3 3 u) 0 1 1 \<noteq> rd (project_store 1 0 1 2 3 3 t) 0 1 1)"
proof -
  have a: "rd (project_solved iter velocX velocY p dv N s) r i j = rd s r i j"
    "rd (project_store iter velocX velocY p dv N s) r i j = rd s r i j"
    if "edge N i j" for r i j
    using that assms(2-5) rd_project_solved_edge [of N s p dv i j iter velocX velocY r]
      rd_project_store_edge [of N s velocX velocY p dv i j iter r]
    by (simp_all add: edge_def)
  have b: "heap (project_store iter velocX velocY p dv N s) r =
           heap (project_store iter velocX velocY p dv N t) r"
    if "velocX \<noteq> dv \<and> velocY \<noteq> dv \<and> p \<noteq> dv \<and> same_but_rim N dv s t" "r \<noteq> dv" for t r
  proof -
    have "same_but_rim N dv (project_store iter velocX velocY p dv N s)
                            (project_store iter velocX velocY p dv N t)"
      using that(1) assms(4,5) by (intro same_but_rim_project_store) simp_all
    then show ?thesis using that(2) by (simp add: same_but_rim_def)
  qed
  have c: "\<exists>u t. square 3 u 0 \<and> square 3 u 1 \<and> square 3 u 2 \<and> square 3 u 3
              \<and> same_but_rim 3 2 u t
              \<and> rd (project_store 1 0 1 2 3 3 u) 2 1 1 \<noteq> rd (project_store 1 0 1 2 3 3 t) 2 1 1
              \<and> rd (project_store 1 0 1 2 3 3 u) 0 1 1 \<noteq> rd (project_store 1 0 1 2 3 3 t) 0 1 1"
    using squares_3(5-8) same_but_rim_stale_p3 stale_p3_differs by blast
  show ?thesis
    using a b c by (simp add: project_eq)
qed


theorem project_rim_stale_witness:
  "(2::nat) \<le> 3
   \<and> square 3 ex_stale_div3 0 \<and> square 3 ex_stale_div3 1
   \<and> square 3 ex_stale_div3 2 \<and> square 3 ex_stale_div3 3
   \<and> edge 3 1 2 \<and> same_but_rim 3 3 ex_stale_div3 ex_rest3
   \<and> project 1 0 1 2 3 3 ex_stale_div3 =
         Inr ((0, 1, 2, 3), project_store 1 0 1 2 3 3 ex_stale_div3)
   \<and> rd (project_store 1 0 1 2 3 3 ex_stale_div3) 3 1 2 = 1
   \<and> rd (project_store 1 0 1 2 3 3 ex_stale_div3) 2 1 2 = 0
   \<and> heap (project_store 1 0 1 2 3 3 ex_stale_div3) 2 = heap (project_store 1 0 1 2 3 3 ex_rest3) 2
   \<and> heap (project_store 1 0 1 2 3 3 ex_stale_div3) 0 = heap (project_store 1 0 1 2 3 3 ex_rest3) 0"
proof -
  have h: "(2::nat) \<le> 3" "square 3 ex_stale_div3 0" "square 3 ex_stale_div3 1"
    "square 3 ex_stale_div3 2" "square 3 ex_stale_div3 3"
    using squares_3 by simp_all
  have e: "edge 3 1 2" by (simp add: edge_3)
  note T = project_rim_stale [OF h, of 1]
  from T have 1: "project 1 0 1 2 3 3 ex_stale_div3 =
      Inr ((0, 1, 2, 3), project_store 1 0 1 2 3 3 ex_stale_div3)"
    by blast
  from T e have 2: "rd (project_store 1 0 1 2 3 3 ex_stale_div3) 3 1 2 = rd ex_stale_div3 3 1 2"
    "rd (project_store 1 0 1 2 3 3 ex_stale_div3) 2 1 2 = rd ex_stale_div3 2 1 2"
    by blast+
  from T have "\<forall>t. (0::nat) \<noteq> 3 \<and> (1::nat) \<noteq> 3 \<and> (2::nat) \<noteq> 3 \<and> same_but_rim 3 3 ex_stale_div3 t \<longrightarrow>
      (\<forall>r. r \<noteq> 3 \<longrightarrow> heap (project_store 1 0 1 2 3 3 ex_stale_div3) r =
                       heap (project_store 1 0 1 2 3 3 t) r)"
    by blast
  then have 3: "heap (project_store 1 0 1 2 3 3 ex_stale_div3) r =
      heap (project_store 1 0 1 2 3 3 ex_rest3) r" if "r \<noteq> 3" for r
    using same_but_rim_stale_div3 that by simp
  have 4: "rd ex_stale_div3 3 1 2 = 1" "rd ex_stale_div3 2 1 2 = 0"
    by (simp_all add: ex_stale_div3_def)
  show ?thesis
    using h e same_but_rim_stale_div3 1 3 [of 2] 3 [of 0] unfolding 2 4 by simp
qed

text \<open>
  Two \<open>3 \<times> 3\<close> calls that differ only in the edge cell \<open>(1, 2)\<close> of \<open>div\<close>: the pressure
  buffer and both velocity buffers come out identical.
\<close>

theorem project_stale_div_counterexample:
  "edge 3 1 2 \<and> rd ex_stale_div3 3 1 2 = 1 \<and> rd ex_rest3 3 1 2 = 0
   \<and> same_but_rim 3 3 ex_stale_div3 ex_rest3
   \<and> heap (snd (projr (project 1 0 1 2 3 3 ex_stale_div3))) 2 =
       heap (snd (projr (project 1 0 1 2 3 3 ex_rest3))) 2
   \<and> heap (snd (projr (project 1 0 1 2 3 3 ex_stale_div3))) 0 =
       heap (snd (projr (project 1 0 1 2 3 3 ex_rest3))) 0
   \<and> heap (snd (projr (project 1 0 1 2 3 3 ex_stale_div3))) 1 =
       heap (snd (projr (project 1 0 1 2 3 3 ex_rest3))) 1"
proof -
  have "same_but_rim 3 3 (project_store 1 0 1 2 3 3 ex_stale_div3)
                         (project_store 1 0 1 2 3 3 ex_rest3)"
    using same_but_rim_stale_div3 squares_3(11,12)
    by (intro same_but_rim_project_store) simp_all
  then have "heap (project_store 1 0 1 2 3 3 ex_stale_div3) r =
             heap (project_store 1 0 1 2 3 3 ex_rest3) r" if "r \<noteq> 3" for r
    using that by (simp add: same_but_rim_def)
  then have "heap (project_store 1 0 1 2 3 3 ex_stale_div3) 2 =
             heap (project_store 1 0 1 2 3 3 ex_rest3) 2"
    "heap (project_store 1 0 1 2 3 3 ex_stale_div3) 0 = heap (project_store 1 0 1 2 3 3 ex_rest3) 0"
    "heap (project_store 1 0 1 2 3 3 ex_stale_div3) 1 = heap (project_store 1 0 1 2 3 3 ex_rest3) 1"
    by simp_all
  moreover have "rd ex_stale_div3 3 1 2 = 1" "rd ex_rest3 3 1 2 = 0"
    by (simp_all add: ex_stale_div3_def ex_rest3_def)
  ultimately show ?thesis
    using same_but_rim_stale_div3 by (simp add: project_eq edge_3)
qed

section \<open>project: the velocity update on a concrete grid\<close>

lemma project4_pressure:
  "rd (project_solved 1 0 1 2 3 4 ex_project4) 2 1 2 = - 1 / 6"
  "rd (project_solved 1 0 1 2 3 4 ex_project4) 2 2 1 = 0"
  "rd (project_solved 1 0 1 2 3 4 ex_project4) 2 0 1 = 0"
  "rd (project_solved 1 0 1 2 3 4 ex_project4) 2 1 0 = 0"
  "rd (project_solved 1 0 1 2 3 4 ex_project4) 2 3 2 = 0"
  "rd (project_solved 1 0 1 2 3 4 ex_project4) 2 2 3 = 0"
  by (simp_all add: project_solved_def sweep_def rd_set_bnd [where N = 4] rd_relax
      rd_project_div_loop interior_def ex_project4_def)

lemma squares_4:
  "square 4 ex_project4 0" "square 4 ex_project4 1" "square 4 ex_project4 2" "square 4 ex_project4 3"
  by (simp_all add: ex_project4_def square_store_of)

text \<open>
  C1. The claim: after the pressure solve each velocity component loses the pressure
  gradient along its own axis, \<open>velocX[i,j] -= 0.5 * N * (p[i+1,j] - p[i-1,j])\<close> and
  \<open>velocY[i,j] -= 0.5 * N * (p[i,j+1] - p[i,j-1])\<close>. The code subtracts the sum of both
  differences from both components (lemma \<open>rd_project_store_velocity\<close>). On the
  \<open>4 \<times> 4\<close> grid with \<open>velocX[2,2] = 8\<close>, everything else zero and one sweep, the solved
  pressure is \<open>- 1 / 6\<close> at \<open>(1, 2)\<close> and zero elsewhere: the code leaves
  \<open>velocX[1,1] = 1 / 3\<close> and \<open>velocY[2,2] = - 1 / 3\<close>, where the claimed update gives
  \<open>0\<close> for both.
\<close>

theorem project_velocity_failing_input:
  "project 1 0 1 2 3 4 ex_project4 = Inr ((0, 1, 2, 3), project_store 1 0 1 2 3 4 ex_project4)
   \<and> rd (project_store 1 0 1 2 3 4 ex_project4) 0 1 1 = 1 / 3
   \<and> rd ex_project4 0 1 1 -
         0.5 * 4 * (rd (project_solved 1 0 1 2 3 4 ex_project4) 2 2 1 -
                    rd (project_solved 1 0 1 2 3 4 ex_project4) 2 0 1) = 0
   \<and> rd (project_store 1 0 1 2 3 4 ex_project4) 1 2 2 = - 1 / 3
   \<and> rd ex_project4 1 2 2 -
         0.5 * 4 * (rd (project_solved 1 0 1 2 3 4 ex_project4) 2 2 3 -
                    rd (project_solved 1 0 1 2 3 4 ex_project4) 2 2 1) = 0"
proof -
  have i: "interior 4 1 1" "interior 4 2 2" by (simp_all add: interior_def)
  have z: "rd ex_project4 0 1 1 = 0" "rd ex_project4 1 2 2 = 0"
    by (simp_all add: ex_project4_def)
  have vx: "rd (project_store 1 0 1 2 3 4 ex_project4) 0 1 1 =
      rd ex_project4 0 1 1 -
        0.5 * (rd (project_solved 1 0 1 2 3 4 ex_project4) 2 2 1 -
               rd (project_solved 1 0 1 2 3 4 ex_project4) 2 0 1 +
               rd (project_solved 1 0 1 2 3 4 ex_project4) 2 1 2 -
               rd (project_solved 1 0 1 2 3 4 ex_project4) 2 1 0) * real 4"
    using rd_project_store_velocity [OF _ _ _ _ _ squares_4(1,2) i(1),
        where p = 2 and dv = 3 and r = 0 and iter = 1]
    by (simp add: numeral_2_eq_2)
  have vy: "rd (project_store 1 0 1 2 3 4 ex_project4) 1 2 2 =
      rd ex_project4 1 2 2 -
        0.5 * (rd (project_solved 1 0 1 2 3 4 ex_project4) 2 3 2 -
               rd (project_solved 1 0 1 2 3 4 ex_project4) 2 1 2 +
               rd (project_solved 1 0 1 2 3 4 ex_project4) 2 2 3 -
               rd (project_solved 1 0 1 2 3 4 ex_project4) 2 2 1) * real 4"
    using rd_project_store_velocity [OF _ _ _ _ _ squares_4(1,2) i(2),
        where p = 2 and dv = 3 and r = 1 and iter = 1]
    by (simp add: numeral_2_eq_2 numeral_3_eq_3)
  show ?thesis
    unfolding vx vy project4_pressure z by (simp add: project_eq)
qed

section \<open>Which buffer each operation returns\<close>

lemma advect_cases:
  "advect N b d d0 Vx Vy dt NN s = Inl IndexError \<or>
   advect N b d d0 Vx Vy dt NN s =
     Inr (brk s, snd (set_bnd b (brk s)
       (snd (alloc (advect_array N NN dt (heap s d0) (heap s Vx) (heap s Vy)) s))))"
  by (simp add: advect_def Let_def alloc_def prod_eq_iff)

lemma rd_advect_new:
  assumes "\<not> corner NN i j"
  shows "rd (snd (set_bnd b (brk s) (snd (alloc (advect_array N NN dt D0 VX VY) s)))) (brk s) i j =
         cells (advect_array N NN dt D0 VX VY) i j"
proof -
  let ?A = "advect_array N NN dt D0 VX VY"
  have sh: "rows (snd (alloc ?A s)) (brk s) = NN" "cols (snd (alloc ?A s)) (brk s) = NN"
    by (simp_all add: rows_alloc cols_alloc advect_array_def)
  show ?thesis
    using rd_set_bnd_frame [OF sh assms] by (simp add: rd_alloc)
qed

lemma advect_fresh:
  assumes "advect N b d d0 Vx Vy dt NN s = Inr (d', s')"
  shows "d' = brk s" and "brk s' = Suc (brk s)" and "r \<noteq> brk s \<Longrightarrow> heap s' r = heap s r"
    and "\<not> corner NN i j \<Longrightarrow>
         rd s' d' i j = cells (advect_array N NN dt (heap s d0) (heap s Vx) (heap s Vy)) i j"
proof -
  let ?A = "advect_array N NN dt (heap s d0) (heap s Vx) (heap s Vy)"
  have e: "d' = brk s" "s' = snd (set_bnd b (brk s) (snd (alloc ?A s)))"
    using assms advect_cases [of N b d d0 Vx Vy dt NN s] by auto
  show "d' = brk s" by (rule e(1))
  show "brk s' = Suc (brk s)" by (simp add: e(2) brk_alloc)
  show "heap s' r = heap s r" if "r \<noteq> brk s"
    using that by (simp add: e(2) heap_alloc_other)
  show "rd s' d' i j = cells ?A i j" if "\<not> corner NN i j"
    unfolding e by (rule rd_advect_new [OF that])
qed

lemma lin_solve_in_place:
  assumes "lin_solve iter b x x0 a c s = Inr (x', s')"
  shows "x' = x" and "brk s' = brk s" and "r \<noteq> x \<Longrightarrow> heap s' r = heap s r"
proof -
  have c: "c \<noteq> 0" using assms by (auto simp add: lin_solve_def)
  have e: "x' = x" "s' = (sweep b x x0 a (1 / c) ^^ iter) s"
    using assms lin_solve_sweeps [OF c, of iter b x x0 a s] by auto
  show "x' = x" by (rule e(1))
  show "brk s' = brk s" by (simp add: e(2))
  show "heap s' r = heap s r" if "r \<noteq> x" using that by (simp add: e(2))
qed

text \<open>
  C2 (as amended). \<open>set_bnd\<close>, \<open>lin_solve\<close>, \<open>diffuse\<close> and \<open>project\<close> return the buffers
  they were given, allocate nothing and leave every buffer other than those unchanged.
  \<open>advect\<close> does not write its parameter \<open>d\<close>: when it returns, the returned buffer is
  a newly allocated one, different from \<open>d\<close>; \<open>d\<close> and every other buffer that existed
  before the call are unchanged; and the new buffer holds the interpolated values in every
  cell that is not a corner. With \<open>NN \<ge> 1\<close> and a source of shape \<open>NN \<times> NN\<close> it
  does return.
\<close>

theorem buffers_in_place_except_advect:
  assumes "d < brk s"
  shows "(\<forall>d' s'. advect N b d d0 Vx Vy dt NN s = Inr (d', s') \<longrightarrow>
              d' = brk s \<and> d' \<noteq> d \<and> heap s' d = heap s d
            \<and> (\<forall>r. r < brk s \<longrightarrow> heap s' r = heap s r)
            \<and> (\<forall>i j. \<not> corner NN i j \<longrightarrow>
                  rd s' d' i j =
                    cells (advect_array N NN dt (heap s d0) (heap s Vx) (heap s Vy)) i j))
       \<and> (1 \<le> NN \<and> square NN s d0 \<longrightarrow> \<not> isl (advect N b d d0 Vx Vy dt NN s))
       \<and> fst (set_bnd b x s) = x \<and> brk (snd (set_bnd b x s)) = brk s
       \<and> (\<forall>r. r \<noteq> x \<longrightarrow> heap (snd (set_bnd b x s)) r = heap s r)
       \<and> (\<forall>x' s'. lin_solve iter b x x0 a c s = Inr (x', s') \<longrightarrow>
              x' = x \<and> brk s' = brk s \<and> (\<forall>r. r \<noteq> x \<longrightarrow> heap s' r = heap s r))
       \<and> (\<forall>x' s'. diffuse iter b x x0 diff dt NN s = Inr (x', s') \<longrightarrow>
              x' = x \<and> brk s' = brk s \<and> (\<forall>r. r \<noteq> x \<longrightarrow> heap s' r = heap s r))
       \<and> (\<exists>s'. project iter velocX velocY p dv NN s = Inr ((velocX, velocY, p, dv), s')
              \<and> brk s' = brk s
              \<and> (\<forall>r. r \<noteq> velocX \<and> r \<noteq> velocY \<and> r \<noteq> p \<and> r \<noteq> dv \<longrightarrow> heap s' r = heap s r))"
proof -
  have 1: "d' = brk s \<and> d' \<noteq> d \<and> heap s' d = heap s d
            \<and> (\<forall>r. r < brk s \<longrightarrow> heap s' r = heap s r)
            \<and> (\<forall>i j. \<not> corner NN i j \<longrightarrow>
                  rd s' d' i j =
                    cells (advect_array N NN dt (heap s d0) (heap s Vx) (heap s Vy)) i j)"
    if "advect N b d d0 Vx Vy dt NN s = Inr (d', s')" for d' s'
    using advect_fresh [OF that] assms by auto
  have 2: "\<not> isl (advect N b d d0 Vx Vy dt NN s)" if "1 \<le> NN \<and> square NN s d0"
    using that advect_no_error [of NN s d0 N b d Vx Vy dt] by (simp add: square_def)
  have 3: "x' = x \<and> brk s' = brk s \<and> (\<forall>r. r \<noteq> x \<longrightarrow> heap s' r = heap s r)"
    if "lin_solve iter b x x0 a c s = Inr (x', s')" for x' s'
    using lin_solve_in_place [OF that] by simp
  have 4: "x' = x \<and> brk s' = brk s \<and> (\<forall>r. r \<noteq> x \<longrightarrow> heap s' r = heap s r)"
    if "diffuse iter b x x0 diff dt NN s = Inr (x', s')" for x' s'
    using that lin_solve_in_place [of iter b x x0 _ _ s x' s'] by (simp add: diffuse_def Let_def)
  have 5: "\<exists>s'. project iter velocX velocY p dv NN s = Inr ((velocX, velocY, p, dv), s')
              \<and> brk s' = brk s
              \<and> (\<forall>r. r \<noteq> velocX \<and> r \<noteq> velocY \<and> r \<noteq> p \<and> r \<noteq> dv \<longrightarrow> heap s' r = heap s r)"
    by (simp add: project_eq)
  show ?thesis
    using 1 2 3 4 5 by simp
qed


lemma ex_advect3_cell:
  "cells (advect_array 3 3 1 (heap ex_advect3 1) (heap ex_advect3 2) (heap ex_advect3 3)) 1 1 = 5"
proof -
  have "rows ex_advect3 1 = 3" "cols ex_advect3 1 = 3" "rd ex_advect3 2 1 1 = 0"
    "rd ex_advect3 3 1 1 = 0" "rd ex_advect3 1 1 1 = 5"
    by (simp_all add: ex_advect3_def)
  then show ?thesis
    using advect_zero_velocity_cells [of 3 ex_advect3 1 1 1 2 3 1] by simp
qed

theorem buffers_in_place_except_advect_witness:
  "0 < brk ex_advect3 \<and> (1::nat) \<le> 3 \<and> square 3 ex_advect3 1 \<and> \<not> corner 3 1 1
   \<and> \<not> isl (advect 3 0 0 1 2 3 1 3 ex_advect3)
   \<and> fst (projr (advect 3 0 0 1 2 3 1 3 ex_advect3)) = 4
   \<and> heap (snd (projr (advect 3 0 0 1 2 3 1 3 ex_advect3))) 0 = heap ex_advect3 0
   \<and> rd (snd (projr (advect 3 0 0 1 2 3 1 3 ex_advect3))) 4 1 1 = 5
   \<and> fst (set_bnd 0 1 ex_advect3) = 1
   \<and> heap (snd (set_bnd 0 1 ex_advect3)) 0 = heap ex_advect3 0
   \<and> \<not> isl (lin_solve 2 0 0 1 1 6 ex_advect3)
   \<and> fst (projr (lin_solve 2 0 0 1 1 6 ex_advect3)) = 0
   \<and> heap (snd (projr (lin_solve 2 0 0 1 1 6 ex_advect3))) 1 = heap ex_advect3 1"
proof -
  have h: "0 < brk ex_advect3" by (simp add: ex_advect3_def)
  have g: "(1::nat) \<le> 3 \<and> square 3 ex_advect3 1" "\<not> corner 3 1 1"
    by (simp_all add: ex_advect3_def square_store_of corner_def)
  have b: "brk ex_advect3 = 4" by (simp add: ex_advect3_def)
  note T = buffers_in_place_except_advect [OF h, where N = 3 and NN = 3 and b = 0 and ?d0.0 = 1
      and Vx = 2 and Vy = 3 and dt = 1 and x = 1 and iter = 2 and ?x0.0 = 1 and a = 1 and c = 6]
  note A = T [THEN conjunct1]
  note B = T [THEN conjunct2, THEN conjunct1]
  note C1 = T [THEN conjunct2, THEN conjunct2, THEN conjunct1]
  note C3 = T [THEN conjunct2, THEN conjunct2, THEN conjunct2, THEN conjunct2, THEN conjunct1]
  from B g(1) have 1: "\<not> isl (advect 3 0 0 1 2 3 1 3 ex_advect3)" by (rule mp)
  then obtain d' s' where r: "advect 3 0 0 1 2 3 1 3 ex_advect3 = Inr (d', s')"
    by (cases "advect 3 0 0 1 2 3 1 3 ex_advect3") auto
  note A' = A [rule_format, OF r]
  from A' have 2: "d' = brk ex_advect3" "heap s' 0 = heap ex_advect3 0"
    by simp_all
  from A' g(2) have "rd s' d' 1 1 =
      cells (advect_array 3 3 1 (heap ex_advect3 1) (heap ex_advect3 2) (heap ex_advect3 3)) 1 1"
    by blast
  then have 3: "rd s' d' 1 1 = 5" unfolding ex_advect3_cell .
  have 4: "fst (set_bnd 0 1 ex_advect3) = 1" by (rule C1)
  from C3 have q4: "heap (snd (set_bnd 0 1 ex_advect3)) 0 = heap ex_advect3 0" by simp
  have 5: "lin_solve 2 0 0 1 1 6 ex_advect3 = Inr (0, (sweep 0 0 1 1 (1 / 6) ^^ 2) ex_advect3)"
    by (rule lin_solve_sweeps) simp
  note T' = buffers_in_place_except_advect [OF h, where x = 0 and iter = 2 and b = 0
      and ?x0.0 = 1 and a = 1 and c = 6]
  note D = T' [THEN conjunct2, THEN conjunct2, THEN conjunct2, THEN conjunct2, THEN conjunct2,
      THEN conjunct1, rule_format, OF 5]
  from D have 6: "heap ((sweep 0 0 1 1 (1 / 6) ^^ 2) ex_advect3) 1 = heap ex_advect3 1"
    by simp
  have 7: "\<not> isl (lin_solve 2 0 0 1 1 6 ex_advect3)"
    "fst (projr (lin_solve 2 0 0 1 1 6 ex_advect3)) = 0"
    "heap (snd (projr (lin_solve 2 0 0 1 1 6 ex_advect3))) 1 = heap ex_advect3 1"
    unfolding 5 using 6 by simp_all
  have 8: "fst (projr (advect 3 0 0 1 2 3 1 3 ex_advect3)) = 4"
    "heap (snd (projr (advect 3 0 0 1 2 3 1 3 ex_advect3))) 0 = heap ex_advect3 0"
    "rd (snd (projr (advect 3 0 0 1 2 3 1 3 ex_advect3))) 4 1 1 = 5"
    unfolding r using 2 3 b by simp_all
  show ?thesis
    using h g 1 4 q4 7 8 by simp
qed

text \<open>
  A store with four \<open>3 \<times> 3\<close> buffers at the addresses 0 to 3: \<open>advect\<close> with
  \<open>d = 0\<close> returns the address 4; buffer 0 still holds \<open>9\<close> in the cell \<open>(1, 1)\<close>, and
  the advected value \<open>5\<close> is in buffer 4.
\<close>

theorem advect_fresh_buffer_counterexample:
  "0 < brk ex_advect3
   \<and> fst (projr (advect 3 0 0 1 2 3 1 3 ex_advect3)) = 4
   \<and> fst (projr (advect 3 0 0 1 2 3 1 3 ex_advect3)) \<noteq> 0
   \<and> rd ex_advect3 0 1 1 = 9
   \<and> rd (snd (projr (advect 3 0 0 1 2 3 1 3 ex_advect3))) 0 1 1 = 9
   \<and> rd (snd (projr (advect 3 0 0 1 2 3 1 3 ex_advect3))) 4 1 1 = 5
   \<and> heap (snd (projr (advect 3 0 0 1 2 3 1 3 ex_advect3))) 0 = heap ex_advect3 0"
proof -
  have b: "brk ex_advect3 = 4" by (simp add: ex_advect3_def)
  have r: "advect 3 0 0 1 2 3 1 3 ex_advect3 =
      Inr (brk ex_advect3, snd (set_bnd 0 (brk ex_advect3)
        (snd (alloc (advect_array 3 3 1 (heap ex_advect3 1) (heap ex_advect3 2) (heap ex_advect3 3))
           ex_advect3))))"
    by (rule advect_result) (simp_all add: ex_advect3_def)
  note F = advect_fresh [OF r]
  have k: "\<not> corner 3 1 1" by (simp add: corner_def)
  have 1: "heap (snd (projr (advect 3 0 0 1 2 3 1 3 ex_advect3))) 0 = heap ex_advect3 0"
    unfolding r sum.sel snd_conv using F(3) [of 0] b by simp
  have 2: "rd (snd (projr (advect 3 0 0 1 2 3 1 3 ex_advect3))) 4 1 1 = 5"
    unfolding r sum.sel snd_conv using F(4) [OF k] b ex_advect3_cell by simp
  have 3: "rd ex_advect3 0 1 1 = 9" by (simp add: ex_advect3_def)
  have 4: "rd (snd (projr (advect 3 0 0 1 2 3 1 3 ex_advect3))) 0 1 1 = 9"
    using 1 3 by (simp add: rd_def)
  have 5: "fst (projr (advect 3 0 0 1 2 3 1 3 ex_advect3)) = 4"
    unfolding r sum.sel fst_conv by (rule b)
  show ?thesis
    using b 1 2 3 4 5 by simp
qed
end
